theory Spec2Isabelle
  imports Complex_Main
begin

section \<open>JavaScript values used by ChessUtils\<close>

text \<open>
  Strings are lists of characters (code units below 256).  A board cell holds either a
  one-character piece string or \<open>null\<close>.  \<open>undefined\<close>, which a read past the end of
  a row gives, is tested by the code only for truthiness and for equality with a piece
  letter, where it behaves as \<open>null\<close> does; both are \<open>None\<close>.  Holes are not
  represented: an assignment past the end of a row leaves holes, which the model fills
  with \<open>None\<close>, since every board is copied with the spread operator, which reads a
  hole as \<open>undefined\<close>, before \<open>executeMove\<close> scans it or \<open>parsePGN\<close> passes it
  to \<open>boardToFen\<close> (whose \<open>forEach\<close> would skip a hole).  A board is an array of
  row arrays, of whatever lengths the caller passes.
\<close>

type_synonym cell = "char option"
type_synonym board = "cell list list"

text \<open>The only exception the modelled code can raise is a property access on
  \<open>undefined\<close>.\<close>

datatype error = TypeError

definition is_digit :: "char \<Rightarrow> bool" where
  "is_digit ch = (ch \<in> set ''0123456789'')"

definition digit_val :: "char \<Rightarrow> nat" where
  "digit_val ch = of_char ch - 48"

text \<open>The decimal digit for a number below ten.\<close>

definition digit_char :: "nat \<Rightarrow> char" where
  "digit_char n = ''0123456789'' ! n"

text \<open>Number-to-string conversion of a non-negative integer (\<open>fen += empty\<close>).\<close>

function string_of_nat :: "nat \<Rightarrow> string" where
  "string_of_nat n =
     (if n < 10 then [digit_char n] else string_of_nat (n div 10) @ [digit_char (n mod 10)])"
  by pat_completeness auto
termination
  by (relation "measure (\<lambda>n. n)") auto

declare string_of_nat.simps [simp del]

text \<open>\<open>s.split(d)\<close> for a one-character separator: the empty string gives one empty
  field.\<close>

fun split_on :: "char \<Rightarrow> string \<Rightarrow> string list" where
  "split_on d [] = [[]]"
| "split_on d (c # cs) =
     (if c = d then [] # split_on d cs
      else (case split_on d cs of [] \<Rightarrow> [[c]] | w # ws \<Rightarrow> (c # w) # ws))"

text \<open>\<open>xs.join(d)\<close>.\<close>

fun join :: "string \<Rightarrow> string list \<Rightarrow> string" where
  "join d [] = []"
| "join d [x] = x"
| "join d (x # y # ys) = x @ d @ join d (y # ys)"

text \<open>\<open>a[i] = v\<close> on an array: an index past the end extends the array, leaving
  holes.\<close>

definition js_set :: "cell list \<Rightarrow> nat \<Rightarrow> cell \<Rightarrow> cell list" where
  "js_set xs i v =
     (if i < length xs then xs[i := v] else xs @ replicate (i - length xs) None @ [v])"

section \<open>fenToBoard and boardToFen\<close>

definition initialFen :: string where
  "initialFen = ''rnbqkbnr/pppppppp/8/8/8/8/PPPPPPPP/RNBQKBNR w KQkq - 0 1''"

text \<open>The body of \<open>rows.forEach((row, r) => ...)\<close> for one row: \<open>c\<close> is the column
  counter, a digit advances it, any other character is stored with
  \<open>board[r][c++] = ch\<close>.  For \<open>r\<close> past the eight allocated rows \<open>board[r]\<close> is
  \<open>undefined\<close> and the store raises.\<close>

fun fenRow :: "board \<Rightarrow> nat \<Rightarrow> nat \<Rightarrow> string \<Rightarrow> error + board" where
  "fenRow board r c [] = Inr board"
| "fenRow board r c (ch # rest) =
     (if is_digit ch then fenRow board r (c + digit_val ch) rest
      else if r < length board
        then fenRow (board[r := js_set (board ! r) c (Some ch)]) r (Suc c) rest
      else Inl TypeError)"

fun fenRows :: "board \<Rightarrow> nat \<Rightarrow> string list \<Rightarrow> error + board" where
  "fenRows board r [] = Inr board"
| "fenRows board r (row # rest) =
     (case fenRow board r 0 row of
        Inl e \<Rightarrow> Inl e
      | Inr board' \<Rightarrow> fenRows board' (Suc r) rest)"

definition fenToBoard :: "string \<Rightarrow> error + board" where
  "fenToBoard fen0 =
     (let fen = (if fen0 = [] then initialFen else fen0);
          position = hd (split_on CHR '' '' fen);
          rows = split_on CHR ''/'' position
      in fenRows (replicate 8 (replicate 8 None)) 0 rows)"

text \<open>The callback of \<open>row.forEach\<close> in \<open>boardToFen\<close>, threading \<open>empty\<close> (here \<open>empties\<close>) and
  \<open>fen\<close>.\<close>

fun rowLoop :: "cell list \<Rightarrow> nat \<Rightarrow> string \<Rightarrow> nat \<times> string" where
  "rowLoop [] empties fen = (empties, fen)"
| "rowLoop (None # cells) empties fen = rowLoop cells (Suc empties) fen"
| "rowLoop (Some ch # cells) empties fen =
     rowLoop cells 0 ((if empties \<noteq> 0 then fen @ string_of_nat empties else fen) @ [ch])"

definition rowToFen :: "cell list \<Rightarrow> string" where
  "rowToFen row =
     (case rowLoop row 0 [] of
        (empties, fen) \<Rightarrow> if empties \<noteq> 0 then fen @ string_of_nat empties else fen)"

definition boardToFen :: "board \<Rightarrow> string \<Rightarrow> string" where
  "boardToFen board active =
     join ''/'' (map rowToFen board) @ '' '' @ active @ '' KQkq - 0 1''"

text \<open>The piece letters, the keys of \<open>PIECE_SYMBOLS\<close>.\<close>

definition valid_piece :: "char \<Rightarrow> bool" where
  "valid_piece ch = (ch \<in> set ''KQRBNPkqrbnp'')"

definition valid_cell :: "cell \<Rightarrow> bool" where
  "valid_cell x = (case x of None \<Rightarrow> True | Some ch \<Rightarrow> valid_piece ch)"

definition valid_board :: "board \<Rightarrow> bool" where
  "valid_board board =
     (length board = 8 \<and> list_all (\<lambda>row. length row = 8 \<and> list_all valid_cell row) board)"

subsection \<open>Auxiliary notions for the round trip\<close>

text \<open>Decoding one row, on the row alone.\<close>

fun decodeRow :: "cell list \<Rightarrow> nat \<Rightarrow> string \<Rightarrow> cell list \<times> nat" where
  "decodeRow row c [] = (row, c)"
| "decodeRow row c (ch # rest) =
     (if is_digit ch then decodeRow row (c + digit_val ch) rest
      else decodeRow (js_set row c (Some ch)) (Suc c) rest)"

text \<open>Every cell from column \<open>c\<close> on is still empty.\<close>

definition blank_from :: "cell list \<Rightarrow> nat \<Rightarrow> bool" where
  "blank_from row c = (\<forall>i. c \<le> i \<and> i < length row \<longrightarrow> row ! i = None)"

text \<open>The string contains neither field separator.\<close>

definition no_sep :: "string \<Rightarrow> bool" where
  "no_sep s = (\<forall>ch \<in> set s. ch \<noteq> CHR ''/'' \<and> ch \<noteq> CHR '' '')"


text \<open>The standard starting array, row 0 being rank 8.\<close>

definition startBoard :: board where
  "startBoard =
     [map Some ''rnbqkbnr'', map Some ''pppppppp'',
      replicate 8 None, replicate 8 None, replicate 8 None, replicate 8 None,
      map Some ''PPPPPPPP'', map Some ''RNBQKBNR'']"

section \<open>Strings and regular expressions of the code\<close>

text \<open>White space as \<open>\s\<close> and \<open>trim()\<close> see it, among the code units below 256: tab,
  line feed, vertical tab, form feed, carriage return, space and no-break space.\<close>

definition is_space :: "char \<Rightarrow> bool" where
  "is_space ch = (ch \<in> set [CHR 0x09, CHR 0x0A, CHR 0x0B, CHR 0x0C, CHR 0x0D, CHR '' '', CHR 0xA0])"

definition trim :: "string \<Rightarrow> string" where
  "trim s = rev (dropWhile is_space (rev (dropWhile is_space s)))"

text \<open>The class \<open>\w\<close>.\<close>

definition is_word :: "char \<Rightarrow> bool" where
  "is_word ch =
     (ch \<in> set ''ABCDEFGHIJKLMNOPQRSTUVWXYZabcdefghijklmnopqrstuvwxyz0123456789_'')"

definition in_set :: "string \<Rightarrow> char \<Rightarrow> bool" where
  "in_set s ch = (ch \<in> set s)"

definition startsWith :: "string \<Rightarrow> string \<Rightarrow> bool" where
  "startsWith s p = (take (length p) s = p)"

definition endsWith :: "string \<Rightarrow> string \<Rightarrow> bool" where
  "endsWith s p = (length p \<le> length s \<and> drop (length s - length p) s = p)"

text \<open>\<open>s.includes(p)\<close>.\<close>

fun includes_str :: "string \<Rightarrow> string \<Rightarrow> bool" where
  "includes_str [] p = (p = [])"
| "includes_str (c # cs) p = (startsWith (c # cs) p \<or> includes_str cs p)"

text \<open>\<open>parseInt(s, 10)\<close> on a string of decimal digits.  JavaScript numbers are
  doubles; the model is exact, as the code is below \<open>2^53\<close>.\<close>

definition parseInt :: "string \<Rightarrow> nat" where
  "parseInt s = foldl (\<lambda>a ch. 10 * a + digit_val ch) 0 s"

text \<open>\<open>toUpperCase\<close> and \<open>toLowerCase\<close> on one character; the code applies them to
  ASCII letters only.\<close>

definition toUpperCase :: "char \<Rightarrow> char" where
  "toUpperCase ch =
     (case map_of (zip ''abcdefghijklmnopqrstuvwxyz'' ''ABCDEFGHIJKLMNOPQRSTUVWXYZ'') ch of
        None \<Rightarrow> ch | Some u \<Rightarrow> u)"

definition toLowerCase :: "char \<Rightarrow> char" where
  "toLowerCase ch =
     (case map_of (zip ''ABCDEFGHIJKLMNOPQRSTUVWXYZ'' ''abcdefghijklmnopqrstuvwxyz'') ch of
        None \<Rightarrow> ch | Some l \<Rightarrow> l)"

text \<open>
  The regular expressions of the code are sequences of character classes, each taken
  once (\<open>One\<close>), as an optional group of consecutive classes (\<open>Opt\<close>, the \<open>?\<close>
  quantifier), once or more (\<open>Plus\<close>) or any number of times (\<open>Star\<close>), with an
  optional end anchor (\<open>Eos\<close>).  \<open>match_items\<close> matches at the start of the string
  the way a backtracking matcher does: every quantifier is greedy, and on failure of the
  remainder gives back what it took, so the first match in priority order is returned.
  The result has one capture per item (\<open>None\<close> for an optional group that took no part)
  and the unmatched rest of the string.
\<close>

datatype item =
    One "char \<Rightarrow> bool"
  | Opt "(char \<Rightarrow> bool) list"
  | Plus "char \<Rightarrow> bool"
  | Star "char \<Rightarrow> bool"
  | Eos

fun match_seq :: "(char \<Rightarrow> bool) list \<Rightarrow> string \<Rightarrow> (string \<times> string) option" where
  "match_seq [] s = Some ([], s)"
| "match_seq (p # ps) [] = None"
| "match_seq (p # ps) (c # cs) =
     (if p c then (case match_seq ps cs of None \<Rightarrow> None | Some (m, rest) \<Rightarrow> Some (c # m, rest))
      else None)"

definition skip_item :: "(string option list \<times> string) option \<Rightarrow> string option
    \<Rightarrow> (string option list \<times> string) option" where
  "skip_item res cap = (case res of None \<Rightarrow> None | Some (caps, rest) \<Rightarrow> Some (cap # caps, rest))"

fun match_items :: "item list \<Rightarrow> string \<Rightarrow> (string option list \<times> string) option" where
  "match_items [] s = Some ([], s)"
| "match_items (Eos # its) s = (if s = [] then skip_item (match_items its s) None else None)"
| "match_items (One p # its) [] = None"
| "match_items (One p # its) (c # cs) =
     (if p c then skip_item (match_items its cs) (Some [c]) else None)"
| "match_items (Opt ps # its) s =
     (case match_seq ps s of
        None \<Rightarrow> skip_item (match_items its s) None
      | Some (m, rest) \<Rightarrow>
          (case match_items its rest of
             Some (caps, rest') \<Rightarrow> Some (Some m # caps, rest')
           | None \<Rightarrow> skip_item (match_items its s) None))"
| "match_items (Plus p # its) [] = None"
| "match_items (Plus p # its) (c # cs) =
     (if p c then
        (case match_items (Plus p # its) cs of
           Some (Some m # caps, rest) \<Rightarrow> Some (Some (c # m) # caps, rest)
         | _ \<Rightarrow> skip_item (match_items its cs) (Some [c]))
      else None)"
| "match_items (Star p # its) [] = skip_item (match_items its []) (Some [])"
| "match_items (Star p # its) (c # cs) =
     (if p c then
        (case match_items (Star p # its) cs of
           Some (Some m # caps, rest) \<Rightarrow> Some (Some (c # m) # caps, rest)
         | _ \<Rightarrow> skip_item (match_items its (c # cs)) (Some []))
      else skip_item (match_items its (c # cs)) (Some []))"

text \<open>\<open>s.match(re)\<close> and \<open>re.test(s)\<close> for an expression anchored at the start.\<close>

definition regex_match :: "item list \<Rightarrow> string \<Rightarrow> string option list option" where
  "regex_match its s = map_option fst (match_items its s)"

definition regex_test :: "item list \<Rightarrow> string \<Rightarrow> bool" where
  "regex_test its s = (match_items its s \<noteq> None)"

text \<open>\<open>re.test(s)\<close> for an expression without anchor: a match at some position.\<close>

fun regex_search :: "item list \<Rightarrow> string \<Rightarrow> bool" where
  "regex_search its [] = regex_test its []"
| "regex_search its (c # cs) = (regex_test its (c # cs) \<or> regex_search its cs)"

text \<open>The character of a one-character capture group.\<close>

definition cap1 :: "string option \<Rightarrow> char option" where
  "cap1 g = (case g of Some (ch # _) \<Rightarrow> Some ch | _ \<Rightarrow> None)"

text \<open>\<open>/^([KQRNB])?([a-h])?([1-8])?(x)?([a-h])([1-8])(=([QRNB]))?[+#]?$/\<close>, the
  expression of \<open>executeMove\<close>; the first alternative of \<open>sanRegex\<close> in \<open>parsePGN\<close> is
  the same expression without its groups.\<close>

definition san_items :: "item list" where
  "san_items =
     [Opt [in_set ''KQRNB''], Opt [in_set ''abcdefgh''], Opt [in_set ''12345678''],
      Opt [in_set ''x''], One (in_set ''abcdefgh''), One (in_set ''12345678''),
      Opt [in_set ''='', in_set ''QRNB''], Opt [in_set ''+#''], Eos]"

section \<open>Move objects\<close>

text \<open>
  The object literal that \<open>parsePGN\<close> builds for a move token, with the two properties
  added later: \<open>variations\<close> (absent until a variation is attached) and \<open>fenAfter\<close>
  (absent until \<open>processSequence\<close> stamps the node).  \<open>number\<close> is the full-move number,
  plus one half for a move of Black.
\<close>

datatype moveObj =
  MoveObj (number: rat) (move: string) (san: string) (isWhite: bool) (comment: string)
    (variations: "moveObj list list option") (fenAfter: "string option")

section \<open>executeCastlingForColor and executeMove\<close>

text \<open>Reading \<open>b[r][c]\<close>: a row index outside the array gives \<open>undefined\<close>, whose
  property access raises; a column index outside the row gives \<open>undefined\<close>.\<close>

definition cell_at :: "board \<Rightarrow> int \<Rightarrow> int \<Rightarrow> error + cell" where
  "cell_at b r c =
     (if 0 \<le> r \<and> r < int (length b)
      then Inr (if 0 \<le> c \<and> c < int (length (b ! nat r)) then b ! nat r ! nat c else None)
      else Inl TypeError)"

text \<open>The assignment \<open>b[r][c] = v\<close>.\<close>

definition set_cell :: "board \<Rightarrow> nat \<Rightarrow> nat \<Rightarrow> cell \<Rightarrow> error + board" where
  "set_cell b r c v =
     (if r < length b then Inr (b[r := js_set (b ! r) c v]) else Inl TypeError)"

text \<open>Sequencing of statements that may raise.\<close>

definition bindE :: "error + 'a \<Rightarrow> ('a \<Rightarrow> error + 'b) \<Rightarrow> error + 'b" where
  "bindE m f = (case m of Inl e \<Rightarrow> Inl e | Inr x \<Rightarrow> f x)"

text \<open>The function works on its own copy \<open>b\<close> of the argument; in this value model the
  copy is the argument.\<close>

definition executeCastlingForColor :: "board \<Rightarrow> bool \<Rightarrow> bool \<Rightarrow> error + board" where
  "executeCastlingForColor board white kingside =
     (let b = board;
          row = (if white then 7 else 0);
          K = (if white then CHR ''K'' else CHR ''k'');
          R = (if white then CHR ''R'' else CHR ''r'')
      in if kingside then
           bindE (set_cell b row 4 None) (\<lambda>b.
           bindE (set_cell b row 6 (Some K)) (\<lambda>b.
           bindE (set_cell b row 7 None) (\<lambda>b.
           set_cell b row 5 (Some R))))
         else
           bindE (set_cell b row 4 None) (\<lambda>b.
           bindE (set_cell b row 2 (Some K)) (\<lambda>b.
           bindE (set_cell b row 0 None) (\<lambda>b.
           set_cell b row 3 (Some R)))))"

text \<open>The fields of a notation token, from the capture groups of the expression.\<close>

record sanParts =
  pieceType :: "char option"
  sourceFile :: "char option"
  sourceRank :: "char option"
  targetFile :: char
  targetRank :: char
  promotion :: "char option"

definition parseSan :: "string \<Rightarrow> sanParts option" where
  "parseSan s =
     (case regex_match san_items s of
        Some [g1, g2, g3, g4, Some [tf], Some [tr], g7, g8, g9] \<Rightarrow>
          Some \<lparr>pieceType = cap1 g1, sourceFile = cap1 g2, sourceRank = cap1 g3,
                targetFile = tf, targetRank = tr,
                promotion = (case g7 of Some [eq, q] \<Rightarrow> Some q | _ \<Rightarrow> None)\<rparr>
      | _ \<Rightarrow> None)"

text \<open>The pawn test inside the scan: \<open>tgt\<close>, \<open>fwd\<close>, \<open>single\<close>, \<open>double\<close> and \<open>cap\<close>
  are computed in this order; \<open>b[r + dir][c]\<close> is read only when the conjuncts before
  it hold.\<close>

definition pawnCandidate :: "board \<Rightarrow> bool \<Rightarrow> nat \<Rightarrow> nat \<Rightarrow> nat \<Rightarrow> nat \<Rightarrow> error + bool" where
  "pawnCandidate b w tRow tCol r c =
     (let dir = (if w then - 1 else 1 :: int);
          rd = int tRow - int r;
          cd = int tCol - int c
      in bindE (cell_at b (int tRow) (int tCol)) (\<lambda>tgt.
         let fwd = (cd = 0 \<and> tgt = None);
             single = (cd = 0 \<and> rd = dir \<and> fwd)
         in bindE (if cd = 0 \<and> ((w \<and> r = 6 \<and> rd = - 2) \<or> (\<not> w \<and> r = 1 \<and> rd = 2))
                   then bindE (cell_at b (int r + dir) (int c)) (\<lambda>x. Inr (x = None \<and> fwd))
                   else Inr False) (\<lambda>double.
            let cap = (\<bar>cd\<bar> = 1 \<and> rd = dir \<and> tgt \<noteq> None)
            in Inr (single \<or> double \<or> cap))))"

text \<open>The body of the two nested \<open>for\<close> loops for the square \<open>(r, c)\<close>: does it enter
  \<open>potentials\<close>?\<close>

definition candidate ::
  "board \<Rightarrow> char \<Rightarrow> char \<Rightarrow> bool \<Rightarrow> char option \<Rightarrow> char option \<Rightarrow> nat \<Rightarrow> nat
     \<Rightarrow> nat \<times> nat \<Rightarrow> error + bool" where
  "candidate b piece base w sFile sRank tRow tCol sq =
     (case sq of (r, c) \<Rightarrow>
        bindE (cell_at b (int r) (int c)) (\<lambda>x.
          if x \<noteq> Some piece then Inr False
          else if (case sFile of None \<Rightarrow> False | Some f \<Rightarrow> of_char f \<noteq> 97 + c) then Inr False
          else if (case sRank of None \<Rightarrow> False | Some k \<Rightarrow> [k] \<noteq> string_of_nat (8 - r))
            then Inr False
          else if base = CHR ''P'' then pawnCandidate b w tRow tCol r c
          else Inr True))"

text \<open>A loop over squares that keeps those passing a test which may raise; it is the
  scan that fills \<open>potentials\<close> and also \<open>potentials.filter\<close>.\<close>

fun scan :: "(nat \<times> nat \<Rightarrow> error + bool) \<Rightarrow> (nat \<times> nat) list \<Rightarrow> error + (nat \<times> nat) list" where
  "scan f [] = Inr []"
| "scan f (sq # rest) =
     bindE (f sq) (\<lambda>keep. bindE (scan f rest) (\<lambda>ps. Inr (if keep then sq # ps else ps)))"

text \<open>The squares in the order of \<open>for r\<close>, \<open>for c\<close>.\<close>

definition squares :: "(nat \<times> nat) list" where
  "squares = List.product [0, 1, 2, 3, 4, 5, 6, 7] [0, 1, 2, 3, 4, 5, 6, 7]"

definition potentials ::
  "board \<Rightarrow> char \<Rightarrow> char \<Rightarrow> bool \<Rightarrow> char option \<Rightarrow> char option \<Rightarrow> nat \<Rightarrow> nat
     \<Rightarrow> error + (nat \<times> nat) list" where
  "potentials b piece base w sFile sRank tRow tCol =
     scan (candidate b piece base w sFile sRank tRow tCol) squares"

text \<open>The ray loops \<open>for (rr = r + sr, cc = c + sc; ...; rr += sr, cc += sc)\<close>: the
  steps are \<open>dr / ar\<close> and \<open>dc / ac\<close>, one towards the target, so the loop visits the
  \<open>n\<close> squares strictly between source and target, where \<open>n\<close> is the distance less one;
  \<open>n\<close> counts the iterations left.\<close>

fun ray :: "board \<Rightarrow> int \<Rightarrow> int \<Rightarrow> nat \<Rightarrow> int \<Rightarrow> int \<Rightarrow> error + bool" where
  "ray b sr sc 0 rr cc = Inr True"
| "ray b sr sc (Suc n) rr cc =
     bindE (cell_at b rr cc) (\<lambda>x. if x \<noteq> None then Inr False else ray b sr sc n (rr + sr) (cc + sc))"

text \<open>The diagonal loop.  With \<open>ar = ac = 0\<close> the steps are \<open>0 / 0\<close>, \<open>NaN\<close>; the
  loop condition \<open>rr !== tRow\<close> holds and \<open>b[NaN][NaN]\<close> raises.\<close>

definition diagonalRay :: "board \<Rightarrow> int \<Rightarrow> int \<Rightarrow> int \<Rightarrow> int \<Rightarrow> error + bool" where
  "diagonalRay b r c dr dc =
     (if dr = 0 then Inl TypeError
      else ray b (sgn dr) (sgn dc) (nat (\<bar>dr\<bar> - 1)) (r + sgn dr) (c + sgn dc))"

text \<open>The straight loop, entered with \<open>dr = 0\<close> or \<open>dc = 0\<close>.\<close>

definition straightRay :: "board \<Rightarrow> int \<Rightarrow> int \<Rightarrow> int \<Rightarrow> int \<Rightarrow> error + bool" where
  "straightRay b r c dr dc =
     ray b (sgn dr) (sgn dc) (nat (max \<bar>dr\<bar> \<bar>dc\<bar> - 1)) (r + sgn dr) (c + sgn dc)"

text \<open>The callback of \<open>potentials.filter\<close>.\<close>

definition geometry :: "board \<Rightarrow> char \<Rightarrow> nat \<Rightarrow> nat \<Rightarrow> nat \<times> nat \<Rightarrow> error + bool" where
  "geometry b base tRow tCol sq =
     (case sq of (r, c) \<Rightarrow>
        let dr = int tRow - int r; dc = int tCol - int c;
            ar = \<bar>dr\<bar>; ac = \<bar>dc\<bar>;
            p = toUpperCase base
        in if p = CHR ''N'' then Inr ((ar = 2 \<and> ac = 1) \<or> (ar = 1 \<and> ac = 2))
           else if p = CHR ''B'' then
             (if ar \<noteq> ac then Inr False else diagonalRay b (int r) (int c) dr dc)
           else if p = CHR ''R'' then
             (if dr \<noteq> 0 \<and> dc \<noteq> 0 then Inr False else straightRay b (int r) (int c) dr dc)
           else if p = CHR ''Q'' then
             (if ar = ac then diagonalRay b (int r) (int c) dr dc
              else if dr = 0 \<or> dc = 0 then straightRay b (int r) (int c) dr dc
              else Inr False)
           else if p = CHR ''K'' then Inr (ar \<le> 1 \<and> ac \<le> 1)
           else Inr True)"

text \<open>The text of the move: \<open>(moveObj?.san || moveObj?.move || '').trim()\<close>.\<close>

definition sanOf :: "moveObj \<Rightarrow> string" where
  "sanOf m = trim (if san m \<noteq> [] then san m else move m)"

text \<open>The relocation at the end of \<open>executeMove\<close>.\<close>

definition relocate :: "board \<Rightarrow> bool \<Rightarrow> nat \<times> nat \<Rightarrow> nat \<Rightarrow> nat \<Rightarrow> char option \<Rightarrow> error + board" where
  "relocate b w sq tRow tCol promo =
     (case sq of (r, c) \<Rightarrow>
        bindE (cell_at b (int r) (int c)) (\<lambda>x.
        bindE (set_cell b tRow tCol x) (\<lambda>b.
        bindE (set_cell b r c None) (\<lambda>b.
          case promo of
            None \<Rightarrow> Inr b
          | Some q \<Rightarrow> set_cell b tRow tCol (Some (if w then toUpperCase q else toLowerCase q))))))"

text \<open>The target square and the piece of a parsed token; \<open>enumerate\<close> is the array
  \<open>potentials\<close> after the scan, \<open>filterValid\<close> the array \<open>valid\<close>.\<close>

definition base_of :: "sanParts \<Rightarrow> char" where
  "base_of g = (case pieceType g of None \<Rightarrow> CHR ''P'' | Some t \<Rightarrow> t)"

definition tCol_of :: "sanParts \<Rightarrow> nat" where
  "tCol_of g = of_char (targetFile g) - 97"

definition tRow_of :: "sanParts \<Rightarrow> nat" where
  "tRow_of g = 8 - digit_val (targetRank g)"

definition enumerate_candidates :: "board \<Rightarrow> bool \<Rightarrow> sanParts \<Rightarrow> error + (nat \<times> nat) list" where
  "enumerate_candidates b w g =
     potentials b (if w then toUpperCase (base_of g) else toLowerCase (base_of g)) (base_of g) w
       (sourceFile g) (sourceRank g) (tRow_of g) (tCol_of g)"

definition filterValid :: "board \<Rightarrow> sanParts \<Rightarrow> (nat \<times> nat) list \<Rightarrow> error + (nat \<times> nat) list" where
  "filterValid b g ps = scan (geometry b (base_of g) (tRow_of g) (tCol_of g)) ps"

definition isCastling :: "string \<Rightarrow> bool" where
  "isCastling s = (s = ''O-O'' \<or> s = ''0-0'' \<or> s = ''O-O-O'' \<or> s = ''0-0-0'')"

text \<open>The \<open>try\<close> block of \<open>executeMove\<close>.\<close>

definition executeMoveBody :: "board \<Rightarrow> moveObj \<Rightarrow> error + board" where
  "executeMoveBody board m =
     (let b = board; s = sanOf m; w = isWhite m
      in if s = [] then Inr b
         else if s = ''O-O'' \<or> s = ''0-0'' then executeCastlingForColor b w True
         else if s = ''O-O-O'' \<or> s = ''0-0-0'' then executeCastlingForColor b w False
         else
           (case parseSan s of
              None \<Rightarrow> Inr b
            | Some g \<Rightarrow>
                bindE (enumerate_candidates b w g) (\<lambda>ps.
                  if ps = [] then Inr b
                  else bindE (filterValid b g ps) (\<lambda>valid.
                    relocate b w (if valid \<noteq> [] then hd valid else hd ps) (tRow_of g) (tCol_of g)
                      (promotion g)))))"

text \<open>\<open>executeMove\<close>: the \<open>catch\<close> clause returns the argument.\<close>

definition executeMove :: "board \<Rightarrow> moveObj \<Rightarrow> board" where
  "executeMove board m = (case executeMoveBody board m of Inl e \<Rightarrow> board | Inr b \<Rightarrow> b)"

section \<open>processSequence\<close>

text \<open>
  \<open>seq.map\<close> with the variable \<open>currentBoard\<close> threaded through the callback: the
  second argument is the board before the first node of the sequence.  Per node:
  \<open>beforeBoard\<close> is the board on entry, \<open>currentBoard\<close> becomes the result of
  \<open>executeMove\<close>, \<open>fenAfter\<close> is stamped, and each variation, when the node has the
  property, is processed by a recursive call.
\<close>

fun processSequence :: "moveObj list \<Rightarrow> board \<Rightarrow> moveObj list" where
  "processSequence [] board = []"
| "processSequence (MoveObj n mv sn w cm vars fa # rest) board =
     (let beforeBoard = board;
          currentBoard = executeMove board (MoveObj n mv sn w cm vars fa);
          activeColor = (if w then ''b'' else ''w'');
          fenAfter = boardToFen currentBoard activeColor;
          updatedM = MoveObj n mv sn w cm
            (case vars of
               None \<Rightarrow> None
             | Some vs \<Rightarrow> Some (map (\<lambda>v. processSequence v beforeBoard) vs))
            (Some fenAfter)
      in updatedM # processSequence rest currentBoard)"

text \<open>The board immediately before the node at index \<open>i\<close> of a sequence processed
  from \<open>board\<close>: the moves before it applied in order.\<close>

definition boardBefore :: "moveObj list \<Rightarrow> board \<Rightarrow> nat \<Rightarrow> board" where
  "boardBefore seq board i = foldl executeMove board (take i seq)"

section \<open>parsePGN\<close>

subsection \<open>Splitting the text into games\<close>

text \<open>The look-ahead \<open>(?=\[Event\s)\<close>.\<close>

definition newGameAhead :: "string \<Rightarrow> bool" where
  "newGameAhead s =
     (take 6 s = ''[Event'' \<and> (case drop 6 s of [] \<Rightarrow> False | ch # _ \<Rightarrow> is_space ch))"

text \<open>\<open>\n{2,}(?=\[Event\s)\<close> at the start of the string, giving what follows the
  match.  The run of line feeds is taken whole: after a shorter run the next character
  is a line feed, where the look-ahead fails.\<close>

definition match_gap :: "string \<Rightarrow> (string list \<times> string) option" where
  "match_gap s =
     (let n = length (takeWhile (\<lambda>ch. ch = CHR 0x0A) s)
      in if 2 \<le> n \<and> newGameAhead (drop n s) then Some ([], drop n s) else None)"

text \<open>
  \<open>s.split(re)\<close>: \<open>cur\<close> is the piece collected since the last separator.  The
  matcher is tried at each position in turn; where it succeeds the piece is emitted,
  followed by the captures of the separator, and scanning resumes after the match.
  \<open>matcher\<close> gives the captures to emit and the rest of the string.  (An empty match
  does not split; no separator of the code matches the empty string.)
\<close>

function split_by ::
  "(string \<Rightarrow> (string list \<times> string) option) \<Rightarrow> string \<Rightarrow> string \<Rightarrow> string list" where
  "split_by matcher cur [] = [cur]"
| "split_by matcher cur (c # cs) =
     (case matcher (c # cs) of
        None \<Rightarrow> split_by matcher (cur @ [c]) cs
      | Some (caps, rest) \<Rightarrow>
          if length rest < length (c # cs) then cur # caps @ split_by matcher [] rest
          else split_by matcher (cur @ [c]) cs)"
  by pat_completeness auto
termination
  by (relation "measure (\<lambda>(matcher, cur, s). length s)") auto

text \<open>\<open>/\d+\./\<close>.\<close>

definition numbered_items :: "item list" where
  "numbered_items = [Plus is_digit, One (in_set ''.'')]"

definition rawGames :: "string \<Rightarrow> string list" where
  "rawGames pgnText =
     filter (\<lambda>s. s \<noteq> [] \<and> (includes_str s ''[Event'' \<or> regex_search numbered_items s))
       (map trim (split_by match_gap [] (filter (\<lambda>ch. ch \<noteq> CHR 0x0D) pgnText)))"

subsection \<open>Header lines\<close>

text \<open>\<open>/^\[(\w+)\s+"([^"]*)"\]$/\<close>.\<close>

definition header_items :: "item list" where
  "header_items =
     [One (in_set ''[''), Plus is_word, Plus is_space, One (\<lambda>ch. ch = CHR 0x22),
      Star (\<lambda>ch. ch \<noteq> CHR 0x22), One (\<lambda>ch. ch = CHR 0x22), One (in_set '']''), Eos]"

text \<open>The key and the value of a line of header shape.\<close>

definition header_match :: "string \<Rightarrow> (string \<times> string) option" where
  "header_match s =
     (case regex_match header_items s of
        Some [g0, Some k, g2, g3, Some v, g5, g6, g7] \<Rightarrow> Some (k, v)
      | _ \<Rightarrow> None)"

text \<open>
  The object \<open>headers\<close> as the list of its own properties in order of creation.
  \<open>headers[k] = v\<close> replaces the value of an existing key and appends a new one; with
  the key \<open>__proto__\<close> it reaches the setter of the prototype, which ignores a string.
  (Keys that are array indices are listed first by \<open>Object.keys\<close>; no use is made of
  the order.)
\<close>

type_synonym headers = "(string \<times> string) list"

fun update_key :: "headers \<Rightarrow> string \<Rightarrow> string \<Rightarrow> headers" where
  "update_key [] k v = [(k, v)]"
| "update_key ((k', v') # h) k v = (if k' = k then (k, v) # h else (k', v') # update_key h k v)"

definition setHeader :: "headers \<Rightarrow> string \<Rightarrow> string \<Rightarrow> headers" where
  "setHeader h k v = (if k = ''__proto__'' then h else update_key h k v)"

text \<open>The state of the loop over the lines of a chunk.\<close>

record lineState =
  hdrs :: headers
  moveText :: "string list"
  inHeaders :: bool

definition lineStep :: "lineState \<Rightarrow> string \<Rightarrow> lineState" where
  "lineStep st line =
     (let trimmed = trim line
      in if trimmed = [] then st
         else if inHeaders st \<and> startsWith trimmed ''['' then
           (case header_match trimmed of
              Some (k, v) \<Rightarrow> st\<lparr>hdrs := setHeader (hdrs st) k v\<rparr>
            | None \<Rightarrow> st)
         else st\<lparr>inHeaders := False, moveText := moveText st @ [trimmed]\<rparr>)"

definition lineInit :: lineState where
  "lineInit = \<lparr>hdrs = [], moveText = [], inHeaders = True\<rparr>"

definition parseLines :: "string list \<Rightarrow> lineState" where
  "parseLines lines = foldl lineStep lineInit lines"

subsection \<open>Tokens\<close>

text \<open>The alternatives of
  \<open>/(\{[^}]*\}|\(|\)|\d+\.\.\.|\d+\.|\s+)/\<close>, in order.\<close>

definition token_alternatives :: "item list list" where
  "token_alternatives =
     [[One (in_set ''{''), Star (\<lambda>ch. ch \<noteq> CHR ''}''), One (in_set ''}'')],
      [One (in_set ''('')],
      [One (in_set '')'')],
      [Plus is_digit, One (in_set ''.''), One (in_set ''.''), One (in_set ''.'')],
      [Plus is_digit, One (in_set ''.'')],
      [Plus is_space]]"

text \<open>The first alternative that matches at the start of the string; the one capture
  group is the whole match.\<close>

fun first_match :: "item list list \<Rightarrow> string \<Rightarrow> (string list \<times> string) option" where
  "first_match [] s = None"
| "first_match (alt # alts) s =
     (case match_items alt s of
        Some (caps, rest) \<Rightarrow> Some ([take (length s - length rest) s], rest)
      | None \<Rightarrow> first_match alts s)"

definition rawTokens :: "string \<Rightarrow> string list" where
  "rawTokens movesString =
     filter (\<lambda>t. t \<noteq> [] \<and> trim t \<noteq> []) (split_by (first_match token_alternatives) [] movesString)"

subsection \<open>The move tree\<close>

text \<open>\<open>/^(\d+)(\.\.\.)?\.?$/\<close>.\<close>

definition num_items :: "item list" where
  "num_items =
     [Plus is_digit, Opt [in_set ''.'', in_set ''.'', in_set ''.''], Opt [in_set ''.''], Eos]"

text \<open>The number and the presence of the second group.\<close>

definition numMatch :: "string \<Rightarrow> (string \<times> bool) option" where
  "numMatch tok =
     (case regex_match num_items tok of
        Some [Some ds, g2, g3, g4] \<Rightarrow> Some (ds, g2 \<noteq> None)
      | _ \<Rightarrow> None)"

text \<open>\<open>sanRegex\<close>: the notation expression, or \<open>^O-O(-O)?$\<close>, or \<open>^0-0(-0)?$\<close>.\<close>

definition castleO_items :: "item list" where
  "castleO_items =
     [One (in_set ''O''), One (in_set ''-''), One (in_set ''O''),
      Opt [in_set ''-'', in_set ''O''], Eos]"

definition castle0_items :: "item list" where
  "castle0_items =
     [One (in_set ''0''), One (in_set ''-''), One (in_set ''0''),
      Opt [in_set ''-'', in_set ''0''], Eos]"

definition sanRegex :: "string \<Rightarrow> bool" where
  "sanRegex tok =
     (regex_test san_items tok \<or> regex_test castleO_items tok \<or> regex_test castle0_items tok)"

text \<open>
  The variables of the token loop.  \<open>sequenceStack\<close> is kept with its top, the last
  element of the array, at the head; the array \<open>moves\<close> is its bottom entry.  Arrays
  and move objects are values here: each is reachable from one place only, the stack
  entry or the node that owns it.  \<open>curComment\<close> is the variable \<open>comment\<close>.
\<close>

record builder =
  sequenceStack :: "moveObj list list"
  curComment :: string
  expectingBlack :: bool
  moveNumber :: nat

definition builderInit :: builder where
  "builderInit = \<lparr>sequenceStack = [[]], curComment = [], expectingBlack = False, moveNumber = 1\<rparr>"

text \<open>\<open>last.variations = last.variations || []; last.variations.push(finished)\<close>.\<close>

fun addVariation :: "moveObj \<Rightarrow> moveObj list \<Rightarrow> moveObj" where
  "addVariation (MoveObj n mv sn w cm vars fa) finished =
     MoveObj n mv sn w cm (Some ((case vars of None \<Rightarrow> [] | Some vs \<Rightarrow> vs) @ [finished])) fa"

text \<open>The statements for \<open>)\<close> once \<open>finished\<close> is popped and \<open>currentSeq\<close> is the new
  top: nothing is attached when \<open>currentSeq\<close> has no last node.\<close>

definition attach :: "moveObj list \<Rightarrow> moveObj list \<Rightarrow> moveObj list" where
  "attach currentSeq finished =
     (if currentSeq = [] then currentSeq
      else butlast currentSeq @ [addVariation (last currentSeq) finished])"

text \<open>The object literal for a move token.  \<open>number\<close> is exact here; in the code
  it is a double, which agrees with it while \<open>moveNumber\<close> is below \<open>2^52\<close>.\<close>

definition newMove :: "builder \<Rightarrow> string \<Rightarrow> moveObj" where
  "newMove s tok =
     (let white = \<not> expectingBlack s
      in MoveObj (if white then of_nat (moveNumber s) else of_nat (moveNumber s) + 1 / 2)
           tok tok white (curComment s) None None)"

text \<open>
  One iteration of \<open>for (let tok of rawTokens)\<close>.  For \<open>)\<close> with one sequence on
  the stack, \<open>pop\<close> empties the stack, \<open>currentSeq\<close> is \<open>undefined\<close> and reading
  \<open>currentSeq.length\<close> raises.
\<close>

definition tokStep :: "builder \<Rightarrow> string \<Rightarrow> error + builder" where
  "tokStep s tok0 =
     (let tok = trim tok0
      in if tok = [] then Inr s
         else if startsWith tok ''{'' \<and> endsWith tok ''}'' then
           Inr (s\<lparr>curComment := trim (butlast (tl tok))\<rparr>)
         else if tok = ''('' then Inr (s\<lparr>sequenceStack := [] # sequenceStack s\<rparr>)
         else if tok = '')'' then
           (case sequenceStack s of
              finished # currentSeq # below \<Rightarrow>
                Inr (s\<lparr>sequenceStack := attach currentSeq finished # below\<rparr>)
            | _ \<Rightarrow> Inl TypeError)
         else
           (case numMatch tok of
              Some (ds, black) \<Rightarrow> Inr (s\<lparr>moveNumber := parseInt ds, expectingBlack := black\<rparr>)
            | None \<Rightarrow>
                if sanRegex tok then
                  (case sequenceStack s of
                     [] \<Rightarrow> Inl TypeError
                   | topSeq # below \<Rightarrow>
                       Inr (s\<lparr>sequenceStack := (topSeq @ [newMove s tok]) # below,
                              expectingBlack := \<not> expectingBlack s,
                              moveNumber := (if expectingBlack s then Suc (moveNumber s)
                                             else moveNumber s),
                              curComment := []\<rparr>))
                else Inr s))"

fun runTokens :: "builder \<Rightarrow> string list \<Rightarrow> error + builder" where
  "runTokens s [] = Inr s"
| "runTokens s (tok # rest) = bindE (tokStep s tok) (\<lambda>s'. runTokens s' rest)"

subsection \<open>One chunk, and the whole text\<close>

record game =
  headers :: headers
  moves :: "moveObj list"
  gameInitialFen :: string

text \<open>\<open>startFen\<close>: the header \<open>FEN\<close> when it is a non-empty string and \<open>SetUp\<close> is
  \<open>1\<close> or \<open>true\<close>.\<close>

definition startFenOf :: "headers \<Rightarrow> string" where
  "startFenOf h =
     (case map_of h ''FEN'' of
        None \<Rightarrow> initialFen
      | Some fen \<Rightarrow>
          if fen \<noteq> [] \<and> (map_of h ''SetUp'' = Some ''1'' \<or> map_of h ''SetUp'' = Some ''true'')
          then trim fen else initialFen)"

text \<open>The tokens of a chunk and its header state.\<close>

definition chunkLines :: "string \<Rightarrow> lineState" where
  "chunkLines raw = parseLines (split_on CHR 0x0A raw)"

definition chunkTokens :: "string \<Rightarrow> string list" where
  "chunkTokens raw = rawTokens (join '' '' (moveText (chunkLines raw)))"

text \<open>The \<open>try\<close> block for one chunk: the record pushed to \<open>result\<close>, if any.\<close>

definition processChunk :: "string \<Rightarrow> error + game option" where
  "processChunk raw =
     (let h = hdrs (chunkLines raw)
      in bindE (runTokens builderInit (chunkTokens raw)) (\<lambda>bs.
         let mvs = last (sequenceStack bs);
             startFen = startFenOf h
         in bindE (fenToBoard startFen) (\<lambda>startBoard.
            let movesWithFen = processSequence mvs startBoard
            in Inr (if movesWithFen \<noteq> [] \<or> h \<noteq> []
                    then Some \<lparr>headers = h, moves = movesWithFen, gameInitialFen = startFen\<rparr>
                    else None))))"

text \<open>The loop over \<open>rawGames\<close>: the \<open>catch\<close> clause logs and goes on to the next
  chunk.\<close>

fun gamesLoop :: "game list \<Rightarrow> string list \<Rightarrow> game list" where
  "gamesLoop result [] = result"
| "gamesLoop result (raw # rest) =
     (case processChunk raw of
        Inl err \<Rightarrow> gamesLoop result rest
      | Inr None \<Rightarrow> gamesLoop result rest
      | Inr (Some g) \<Rightarrow> gamesLoop (result @ [g]) rest)"

definition parsePGN :: "string \<Rightarrow> game list" where
  "parsePGN pgnText = (if trim pgnText = [] then [] else gamesLoop [] (rawGames pgnText))"

subsection \<open>Notions for stating the properties\<close>

text \<open>The branch of the token loop that a raw token takes, by the tests of the loop in
  their order.\<close>

datatype kind = KBlank | KComment | KOpen | KClose | KNumber | KMove | KOther

definition tokKind :: "string \<Rightarrow> kind" where
  "tokKind tok0 =
     (let tok = trim tok0
      in if tok = [] then KBlank
         else if startsWith tok ''{'' \<and> endsWith tok ''}'' then KComment
         else if tok = ''('' then KOpen
         else if tok = '')'' then KClose
         else if numMatch tok \<noteq> None then KNumber
         else if sanRegex tok then KMove
         else KOther)"

text \<open>The text that a comment token leaves in the variable \<open>comment\<close>.\<close>

definition commentText :: "string \<Rightarrow> string" where
  "commentText tok = trim (butlast (tl (trim tok)))"

text \<open>The stack of a run of the token loop that did not raise.\<close>

definition stackOf :: "error + builder \<Rightarrow> error + moveObj list list" where
  "stackOf res = (case res of Inl e \<Rightarrow> Inl e | Inr s \<Rightarrow> Inr (sequenceStack s))"

text \<open>What one chunk contributes to the result of \<open>parsePGN\<close>.\<close>

definition chunkOutput :: "string \<Rightarrow> game list" where
  "chunkOutput raw =
     (case processChunk raw of Inl err \<Rightarrow> [] | Inr None \<Rightarrow> [] | Inr (Some g) \<Rightarrow> [g])"

text \<open>Two states of the token loop that differ at most in the pending comment.\<close>

definition sameTree :: "builder \<Rightarrow> builder \<Rightarrow> bool" where
  "sameTree s1 s2 =
     (sequenceStack s1 = sequenceStack s2 \<and> expectingBlack s1 = expectingBlack s2 \<and>
      moveNumber s1 = moveNumber s2)"

section \<open>executeMove on a store of arrays\<close>

text \<open>
  The functions above compute with boards as values.  To say which arrays a call reads,
  writes and returns, boards are here references into a store: an object of the store is
  a row array, or an outer array holding the references of its rows; an address is an
  index into the store, and allocation appends.  The scans of \<open>executeMove\<close> only read
  the copy \<open>b\<close>, so they are taken from the value model, applied to the contents of \<open>b\<close>
  in the store; the copies and the assignments act on the store.
\<close>

datatype obj = Row "cell list" | Outer "nat list"

type_synonym heap = "obj list"

definition alloc :: "heap \<Rightarrow> obj \<Rightarrow> nat \<times> heap" where
  "alloc h x = (length h, h @ [x])"

definition rowOf :: "heap \<Rightarrow> nat \<Rightarrow> cell list" where
  "rowOf h a = (case h ! a of Row cs \<Rightarrow> cs | Outer rs \<Rightarrow> [])"

definition rowRefs :: "heap \<Rightarrow> nat \<Rightarrow> nat list" where
  "rowRefs h a = (case h ! a of Outer rs \<Rightarrow> rs | Row cs \<Rightarrow> [])"

text \<open>The board that a reference denotes.\<close>

definition boardOf :: "heap \<Rightarrow> nat \<Rightarrow> board" where
  "boardOf h a = map (rowOf h) (rowRefs h a)"

definition isRow :: "heap \<Rightarrow> nat \<Rightarrow> bool" where
  "isRow h a = (a < length h \<and> (case h ! a of Row cs \<Rightarrow> True | Outer rs \<Rightarrow> False))"

text \<open>A reference to a board: an outer array of references to row arrays (which may
  repeat).\<close>

definition boardRef :: "heap \<Rightarrow> nat \<Rightarrow> bool" where
  "boardRef h a =
     (a < length h \<and> (case h ! a of Outer rs \<Rightarrow> list_all (isRow h) rs | Row cs \<Rightarrow> False))"

text \<open>\<open>board.map(r => [...r])\<close>: a new array for each row, then the new outer
  array.\<close>

fun copyRows :: "heap \<Rightarrow> nat list \<Rightarrow> nat list \<times> heap" where
  "copyRows h [] = ([], h)"
| "copyRows h (r # rs) =
     (case alloc h (Row (rowOf h r)) of
        (a, h1) \<Rightarrow> (case copyRows h1 rs of (as, h2) \<Rightarrow> (a # as, h2)))"

definition copyBoard :: "heap \<Rightarrow> nat \<Rightarrow> nat \<times> heap" where
  "copyBoard h a = (case copyRows h (rowRefs h a) of (rs, h1) \<Rightarrow> alloc h1 (Outer rs))"

text \<open>The assignment \<open>b[r][c] = v\<close> in the store.\<close>

definition writeCell :: "heap \<Rightarrow> nat \<Rightarrow> nat \<Rightarrow> nat \<Rightarrow> cell \<Rightarrow> error + heap" where
  "writeCell h b r c v =
     (if r < length (rowRefs h b)
      then Inr (h[rowRefs h b ! r := Row (js_set (rowOf h (rowRefs h b ! r)) c v)])
      else Inl TypeError)"

text \<open>Assignments in sequence; when one raises, the store is as the assignments
  before it left it.\<close>

fun writeCells :: "heap \<Rightarrow> nat \<Rightarrow> (nat \<times> nat \<times> cell) list \<Rightarrow> (error + unit) \<times> heap" where
  "writeCells h b [] = (Inr (), h)"
| "writeCells h b ((r, c, v) # ws) =
     (case writeCell h b r c v of
        Inl e \<Rightarrow> (Inl e, h)
      | Inr h' \<Rightarrow> writeCells h' b ws)"

text \<open>The same assignments on a board value.\<close>

fun set_cells :: "board \<Rightarrow> (nat \<times> nat \<times> cell) list \<Rightarrow> error + board" where
  "set_cells b [] = Inr b"
| "set_cells b ((r, c, v) # ws) = bindE (set_cell b r c v) (\<lambda>b'. set_cells b' ws)"

text \<open>The assignments of \<open>executeCastlingForColor\<close>.\<close>

definition castlingWrites :: "bool \<Rightarrow> bool \<Rightarrow> (nat \<times> nat \<times> cell) list" where
  "castlingWrites white kingside =
     (let row = (if white then 7 else 0);
          K = (if white then CHR ''K'' else CHR ''k'');
          R = (if white then CHR ''R'' else CHR ''r'')
      in if kingside then [(row, 4, None), (row, 6, Some K), (row, 7, None), (row, 5, Some R)]
         else [(row, 4, None), (row, 2, Some K), (row, 0, None), (row, 3, Some R)])"

text \<open>\<open>executeCastlingForColor\<close>: the reference of the new board, or the exception,
  and the store.\<close>

definition executeCastlingForColorH ::
  "heap \<Rightarrow> nat \<Rightarrow> bool \<Rightarrow> bool \<Rightarrow> (error + nat) \<times> heap" where
  "executeCastlingForColorH h board white kingside =
     (case copyBoard h board of
        (b, h1) \<Rightarrow>
          (case writeCells h1 b (castlingWrites white kingside) of
             (Inl e, h2) \<Rightarrow> (Inl e, h2)
           | (Inr u, h2) \<Rightarrow> (Inr b, h2)))"

text \<open>The assignments at the end of \<open>executeMove\<close>, \<open>x\<close> being the value read from
  \<open>b[r][c]\<close>.\<close>

definition relocateWrites ::
  "bool \<Rightarrow> nat \<times> nat \<Rightarrow> nat \<Rightarrow> nat \<Rightarrow> char option \<Rightarrow> cell \<Rightarrow> (nat \<times> nat \<times> cell) list" where
  "relocateWrites w sq tRow tCol promo x =
     (case sq of (r, c) \<Rightarrow>
        [(tRow, tCol, x), (r, c, None)] @
        (case promo of
           None \<Rightarrow> []
         | Some q \<Rightarrow> [(tRow, tCol, Some (if w then toUpperCase q else toLowerCase q))]))"

text \<open>The \<open>try\<close> block after the copy \<open>b\<close> is made.\<close>

definition tryBlockH :: "heap \<Rightarrow> nat \<Rightarrow> moveObj \<Rightarrow> (error + nat) \<times> heap" where
  "tryBlockH h1 b m =
     (let s = sanOf m; w = isWhite m
      in if s = [] then (Inr b, h1)
         else if s = ''O-O'' \<or> s = ''0-0'' then executeCastlingForColorH h1 b w True
         else if s = ''O-O-O'' \<or> s = ''0-0-0'' then executeCastlingForColorH h1 b w False
         else
           (case parseSan s of
              None \<Rightarrow> (Inr b, h1)
            | Some g \<Rightarrow>
                (case enumerate_candidates (boardOf h1 b) w g of
                   Inl e \<Rightarrow> (Inl e, h1)
                 | Inr ps \<Rightarrow>
                     if ps = [] then (Inr b, h1)
                     else
                       (case filterValid (boardOf h1 b) g ps of
                          Inl e \<Rightarrow> (Inl e, h1)
                        | Inr valid \<Rightarrow>
                            let sq = (if valid \<noteq> [] then hd valid else hd ps)
                            in (case cell_at (boardOf h1 b) (int (fst sq)) (int (snd sq)) of
                                  Inl e \<Rightarrow> (Inl e, h1)
                                | Inr x \<Rightarrow>
                                    (case writeCells h1 b
                                            (relocateWrites w sq (tRow_of g) (tCol_of g)
                                               (promotion g) x) of
                                       (Inl e, h2) \<Rightarrow> (Inl e, h2)
                                     | (Inr u, h2) \<Rightarrow> (Inr b, h2)))))))"

text \<open>\<open>executeMove\<close>: the reference returned and the store after the call.  The
  \<open>catch\<close> clause returns the argument itself.\<close>

definition executeMoveH :: "heap \<Rightarrow> nat \<Rightarrow> moveObj \<Rightarrow> nat \<times> heap" where
  "executeMoveH h board m =
     (case copyBoard h board of
        (b, h1) \<Rightarrow>
          (case tryBlockH h1 b m of
             (Inl e, h2) \<Rightarrow> (board, h2)
           | (Inr a, h2) \<Rightarrow> (a, h2)))"

text \<open>A board reference \<open>b\<close> of the store \<open>h\<close> made after the store \<open>h0\<close>: the outer
  array and its rows are new, the rows are distinct arrays, and the objects of \<open>h0\<close> are
  as they were.\<close>

definition freshIn :: "heap \<Rightarrow> heap \<Rightarrow> nat \<Rightarrow> bool" where
  "freshIn h0 h b =
     (take (length h0) h = h0 \<and> length h0 \<le> b \<and> b < length h \<and>
      (case h ! b of
         Outer rs \<Rightarrow> distinct rs \<and> list_all (\<lambda>r. length h0 \<le> r \<and> isRow h r) rs
       | Row cs \<Rightarrow> False))"

text \<open>The starting array in a store: eight row arrays and the outer array, at address
  8.\<close>

definition startHeap :: heap where
  "startHeap = map Row startBoard @ [Outer [0, 1, 2, 3, 4, 5, 6, 7]]"

section \<open>Concrete inputs\<close>

text \<open>White's knight move to d5 from the starting array, which no knight can make, and
  Black's pawn move to e4 from the starting array, for which no pawn qualifies.\<close>

definition nd5 :: moveObj where
  "nd5 = MoveObj 3 ''Nd5'' ''Nd5'' True [] None None"

definition e4black :: moveObj where
  "e4black = MoveObj (3 / 2) ''e4'' ''e4'' False [] None None"

text \<open>The tree of \<open>1. e4 e5 (1...c5)\<close>.\<close>

definition sampleSeq :: "moveObj list" where
  "sampleSeq =
     [MoveObj 1 ''e4'' ''e4'' True [] None None,
      MoveObj (3 / 2) ''e5'' ''e5'' False []
        (Some [[MoveObj (3 / 2) ''c5'' ''c5'' False [] None None]]) None]"



text \<open>A text of three games, the second of which has that \<open>FEN\<close> header.\<close>

definition threeGames :: string where
  \<open>threeGames =
     ''[Event "a"]\<newline>\<newline>1. e4\<newline>\<newline>'' @
     ''[Event "b"]\<newline>[SetUp "1"]\<newline>[FEN "8/8/8/8/8/8/8/8/k"]\<newline>\<newline>1. e4\<newline>\<newline>'' @
     ''[Event "c"]\<newline>\<newline>1. d4''\<close>

text \<open>White's pawn move to e4, and White's bishop move to c1, the square the bishop
  stands on in the starting array.\<close>

definition e4white :: moveObj where
  "e4white = MoveObj 1 ''e4'' ''e4'' True [] None None"

definition bc1white :: moveObj where
  "bc1white = MoveObj 1 ''Bc1'' ''Bc1'' True [] None None"

section \<open>Round trip between boards and position strings\<close>

lemma string_of_nat_small: "n < 10 \<Longrightarrow> string_of_nat n = [digit_char n]"
  by (subst string_of_nat.simps) simp

lemma lt10_cases: "n < 10 \<Longrightarrow> n \<in> {0,1,2,3,4,5,6,7,8,9::nat}"
  by auto

lemma digit_char_is_digit: "n < 10 \<Longrightarrow> is_digit (digit_char n)"
  by (drule lt10_cases) (auto simp: is_digit_def digit_char_def)

lemma digit_val_digit_char: "n < 10 \<Longrightarrow> digit_val (digit_char n) = n"
  by (drule lt10_cases) (auto simp: digit_val_def digit_char_def)

lemma valid_piece_not_digit: "valid_piece ch \<Longrightarrow> \<not> is_digit ch"
  by (auto simp: valid_piece_def is_digit_def)

lemma valid_piece_not_sep: "valid_piece ch \<Longrightarrow> ch \<noteq> CHR ''/'' \<and> ch \<noteq> CHR '' ''"
  by (auto simp: valid_piece_def)

lemma is_digit_not_sep: "is_digit ch \<Longrightarrow> ch \<noteq> CHR ''/'' \<and> ch \<noteq> CHR '' ''"
  by (auto simp: is_digit_def)

lemma fenRow_decodeRow:
  "r < length board \<Longrightarrow>
   fenRow board r c s = Inr (board[r := fst (decodeRow (board ! r) c s)])"
proof (induction s arbitrary: board c)
  case Nil
  then show ?case by simp
next
  case (Cons ch rest)
  then show ?case by simp
qed

lemma decodeRow_append:
  "decodeRow row c (s @ t) = (case decodeRow row c s of (row', c') \<Rightarrow> decodeRow row' c' t)"
  by (induction s arbitrary: row c) auto

lemma rowLoop_decode:
  "decodeRow row0 0 fen = (row, c) \<Longrightarrow> blank_from row c \<Longrightarrow>
   c + e + length cells \<le> length row \<Longrightarrow> length row \<le> 9 \<Longrightarrow>
   list_all valid_cell cells \<Longrightarrow>
   rowLoop cells e fen = (e', fen') \<Longrightarrow>
   \<exists>row' c'. decodeRow row0 0 fen' = (row', c') \<and> c' + e' = c + e + length cells \<and>
      row' = take (c + e) row @ cells @ drop (c + e + length cells) row \<and> e' \<le> 9"
proof (induction cells arbitrary: e fen row c)
  case Nil
  then show ?case by auto
next
  case (Cons x cells)
  show ?case
  proof (cases x)
    case None
    have b: "row ! (c + e) = None"
      using Cons.prems(2,3) by (simp add: blank_from_def)
    from Cons.prems None have loop: "rowLoop cells (Suc e) fen = (e', fen')" by simp
    from Cons.IH[OF Cons.prems(1) Cons.prems(2) _ Cons.prems(4) _ loop] Cons.prems(3,5)
    obtain row' c' where d: "decodeRow row0 0 fen' = (row', c')"
      and s: "c' + e' = c + Suc e + length cells"
      and r: "row' = take (c + Suc e) row @ cells @ drop (c + Suc e + length cells) row"
      and e9: "e' \<le> 9"
      by auto
    have "take (c + Suc e) row = take (c + e) row @ [None]"
      using b Cons.prems(3) by (simp add: take_Suc_conv_app_nth)
    with d s r e9 None show ?thesis by simp
  next
    case (Some ch)
    let ?fen2 = "(if e \<noteq> 0 then fen @ string_of_nat e else fen) @ [ch]"
    let ?row2 = "row[c + e := Some ch]"
    have vp: "valid_piece ch" using Cons.prems(5) Some by (simp add: valid_cell_def)
    have e9: "e < 10" using Cons.prems(3,4) by simp
    have d2: "decodeRow row0 0 ?fen2 = (?row2, Suc (c + e))"
      using Cons.prems(1,3) vp e9
      by (auto simp: decodeRow_append string_of_nat_small digit_char_is_digit
          digit_val_digit_char valid_piece_not_digit js_set_def)
    have bl: "blank_from ?row2 (Suc (c + e))"
      using Cons.prems(2) by (auto simp: blank_from_def)
    from Cons.prems Some have loop: "rowLoop cells 0 ?fen2 = (e', fen')" by simp
    have len: "Suc (c + e) + 0 + length cells \<le> length ?row2" using Cons.prems(3) by simp
    have l9: "length ?row2 \<le> 9" using Cons.prems(4) by simp
    have va: "list_all valid_cell cells" using Cons.prems(5) by simp
    from Cons.IH[OF d2 bl len l9 va loop]
    obtain row' c' where d: "decodeRow row0 0 fen' = (row', c')"
      and s: "c' + e' = Suc (c + e) + 0 + length cells"
      and r: "row' = take (Suc (c + e) + 0) ?row2 @ cells @ drop (Suc (c + e) + 0 + length cells) ?row2"
      and e9': "e' \<le> 9"
      by auto
    have "take (Suc (c + e)) ?row2 = take (c + e) row @ [Some ch]"
      using Cons.prems(3) by (simp add: take_Suc_conv_app_nth)
    with d s r e9' Some show ?thesis by simp
  qed
qed


lemma rowToFen_decode:
  assumes "length row \<le> 9" "list_all valid_cell row"
  shows "fst (decodeRow (replicate (length row) None) 0 (rowToFen row)) = row"
proof -
  obtain e' fen' where loop: "rowLoop row 0 [] = (e', fen')" by (cases "rowLoop row 0 []")
  have d0: "decodeRow (replicate (length row) None) 0 [] = (replicate (length row) None, 0)"
    by simp
  have bl: "blank_from (replicate (length row) None) 0" by (simp add: blank_from_def)
  from rowLoop_decode[OF d0 bl _ _ assms(2) loop] assms(1)
  obtain row' c' where d: "decodeRow (replicate (length row) None) 0 fen' = (row', c')"
    and r: "row' = row" and e9: "e' \<le> 9"
    by auto
  have "e' < 10" using e9 by simp
  then have "fst (decodeRow (replicate (length row) None) 0 (fen' @ string_of_nat e')) = row'"
    using d by (simp add: decodeRow_append string_of_nat_small digit_char_is_digit)
  with d r loop show ?thesis by (simp add: rowToFen_def)
qed

lemma rowLoop_no_sep:
  "e + length cells \<le> 9 \<Longrightarrow> list_all valid_cell cells \<Longrightarrow> no_sep fen \<Longrightarrow>
   rowLoop cells e fen = (e', fen') \<Longrightarrow> no_sep fen' \<and> e' \<le> 9"
proof (induction cells arbitrary: e fen)
  case Nil
  then show ?case by simp
next
  case (Cons x cells)
  show ?case
  proof (cases x)
    case None
    with Cons.prems Cons.IH[of "Suc e" fen] show ?thesis by simp
  next
    case (Some ch)
    have vp: "valid_piece ch" using Cons.prems(2) Some by (simp add: valid_cell_def)
    have "e < 10" using Cons.prems(1) by simp
    then have "no_sep ((if e \<noteq> 0 then fen @ string_of_nat e else fen) @ [ch])"
      using Cons.prems(3) vp valid_piece_not_sep[of ch] is_digit_not_sep[of "digit_char e"]
      by (auto simp: no_sep_def string_of_nat_small digit_char_is_digit)
    with Cons.prems Some
      Cons.IH[of 0 "(if e \<noteq> 0 then fen @ string_of_nat e else fen) @ [ch]"]
    show ?thesis by simp
  qed
qed

lemma rowToFen_no_sep:
  assumes "length row \<le> 9" "list_all valid_cell row"
  shows "no_sep (rowToFen row)"
proof -
  obtain e' fen' where loop: "rowLoop row 0 [] = (e', fen')" by (cases "rowLoop row 0 []")
  have "no_sep []" by (simp add: no_sep_def)
  from rowLoop_no_sep[OF _ assms(2) this loop] assms(1)
  have n: "no_sep fen'" and e9: "e' < 10" by auto
  then show ?thesis
    using loop is_digit_not_sep[of "digit_char e'"]
    by (auto simp: rowToFen_def no_sep_def string_of_nat_small digit_char_is_digit)
qed

lemma split_on_no_sep: "d \<notin> set x \<Longrightarrow> split_on d x = [x]"
  by (induction x) auto

lemma split_on_append: "d \<notin> set x \<Longrightarrow> split_on d (x @ d # rest) = x # split_on d rest"
  by (induction x) auto

lemma split_on_join:
  "rows \<noteq> [] \<Longrightarrow> \<forall>x \<in> set rows. d \<notin> set x \<Longrightarrow> split_on d (join [d] rows) = rows"
proof (induction rows)
  case Nil
  then show ?case by simp
next
  case (Cons x rows)
  show ?case
  proof (cases rows)
    case Nil
    with Cons.prems show ?thesis by (simp add: split_on_no_sep)
  next
    case (Cons y ys)
    with Cons.prems Cons.IH show ?thesis by (simp add: split_on_append)
  qed
qed

lemma set_join: "set (join d rows) \<subseteq> set d \<union> \<Union> (set ` set rows)"
  by (induction d rows rule: join.induct) auto

lemma fenRows_roundtrip:
  "\<forall>row \<in> set rows. length row = 8 \<and> list_all valid_cell row \<Longrightarrow>
   fenRows (done @ replicate (length rows) (replicate 8 None)) (length done)
     (map rowToFen rows) = Inr (done @ rows)"
proof (induction rows arbitrary: "done")
  case Nil
  then show ?case by simp
next
  case (Cons row rows)
  have l: "length row = 8" and v: "list_all valid_cell row" using Cons.prems by auto
  let ?B = "done @ replicate (length (row # rows)) (replicate 8 None)"
  have "fst (decodeRow (replicate (length row) None) 0 (rowToFen row)) = row"
    using rowToFen_decode[of row] l v by simp
  then have dec: "fst (decodeRow (replicate 8 None) 0 (rowToFen row)) = row"
    using l by simp
  have f: "fenRow ?B (length done) 0 (rowToFen row)
          = Inr (?B[length done := fst (decodeRow (?B ! length done) 0 (rowToFen row))])"
    by (rule fenRow_decodeRow) simp
  have n: "?B ! length done = replicate 8 None"
    by (simp add: nth_append)
  have u: "?B[length done := row] = (done @ [row]) @ replicate (length rows) (replicate 8 None)"
    by (simp add: list_update_append)
  have step: "fenRow ?B (length done) 0 (rowToFen row)
      = Inr ((done @ [row]) @ replicate (length rows) (replicate 8 None))"
    using f dec u by (simp only: n)
  have "fenRows ((done @ [row]) @ replicate (length rows) (replicate 8 None))
          (length (done @ [row])) (map rowToFen rows) = Inr ((done @ [row]) @ rows)"
    using Cons.IH[of "done @ [row]"] Cons.prems by simp
  with step show ?case by simp
qed

text \<open>
  Claim C3.  For every board of eight rows of eight cells, each cell empty or one of the
  twelve piece letters, parsing the position string that \<open>boardToFen\<close> produces (with
  any active-colour field) gives the board back: \<open>fenToBoard\<close> raises nothing and
  returns the original board.
\<close>

theorem fen_roundtrip:
  assumes "valid_board board"
  shows "fenToBoard (boardToFen board active) = Inr board"
proof -
  have len: "length board = 8"
    and rows: "\<forall>row \<in> set board. length row = 8 \<and> list_all valid_cell row"
    using assms by (auto simp: valid_board_def list_all_iff)
  let ?rows = "map rowToFen board"
  let ?j = "join ''/'' ?rows"
  have ns: "\<forall>x \<in> set ?rows. no_sep x"
    using rows rowToFen_no_sep by auto
  then have slash: "\<forall>x \<in> set ?rows. CHR ''/'' \<notin> set x"
    by (auto simp: no_sep_def)
  have "set ?j \<subseteq> set ''/'' \<union> \<Union> (set ` set ?rows)" by (rule set_join)
  with ns have sp: "CHR '' '' \<notin> set ?j" by (fastforce simp: no_sep_def)
  have ne: "boardToFen board active \<noteq> []" by (simp add: boardToFen_def)
  have "split_on CHR '' '' (boardToFen board active)
          = ?j # split_on CHR '' '' (active @ '' KQkq - 0 1'')"
    using split_on_append[OF sp] by (simp add: boardToFen_def)
  then have pos: "hd (split_on CHR '' '' (boardToFen board active)) = ?j" by simp
  have "?rows \<noteq> []" using len by auto
  then have sj: "split_on CHR ''/'' ?j = ?rows"
    using split_on_join[of ?rows "CHR ''/''"] slash by simp
  have "fenRows ([] @ replicate (length board) (replicate 8 None)) (length ([]::board))
          (map rowToFen board) = Inr ([] @ board)"
    using rows by (rule fenRows_roundtrip)
  then have "fenRows (replicate 8 (replicate 8 None)) 0 ?rows = Inr board"
    using len by simp
  with ne pos sj show ?thesis by (simp add: fenToBoard_def Let_def)
qed

theorem fen_roundtrip_witness:
  "valid_board startBoard \<and> fenToBoard (boardToFen startBoard ''w'') = Inr startBoard"
proof -
  have v: "valid_board startBoard"
    by (simp add: valid_board_def startBoard_def valid_cell_def valid_piece_def list_all_iff)
  show ?thesis using v fen_roundtrip [OF v, of "''w''"] by simp
qed

section \<open>Moves that resolve to no square\<close>

lemma processSequence_Cons:
  "processSequence (m # rest) board =
     MoveObj (number m) (move m) (san m) (isWhite m) (comment m)
       (map_option (map (\<lambda>v. processSequence v board)) (variations m))
       (Some (boardToFen (executeMove board m) (if isWhite m then ''b'' else ''w'')))
     # processSequence rest (executeMove board m)"
  by (cases m) (simp add: Let_def split: option.split)

text \<open>
  Claim C1, as amended.  For every board and every move whose text is a notation token
  other than a castling token: if the scan of the board (piece, colour, disambiguation
  and, for a pawn, the pawn action) finds no candidate square, the \<open>try\<close> block
  completes without raising and returns the board unchanged, so does \<open>executeMove\<close>,
  and \<open>processSequence\<close> still emits the node, its \<open>fenAfter\<close> being the position
  string of the unchanged board with the node's own active-colour field, and goes on
  from the same board.
\<close>

theorem executeMove_no_candidates:
  assumes "\<not> isCastling (sanOf m)"
    and "parseSan (sanOf m) = Some g"
    and "enumerate_candidates board (isWhite m) g = Inr []"
  shows "executeMoveBody board m = Inr board \<and> executeMove board m = board \<and>
     processSequence (m # rest) board =
       MoveObj (number m) (move m) (san m) (isWhite m) (comment m)
         (map_option (map (\<lambda>v. processSequence v board)) (variations m))
         (Some (boardToFen board (if isWhite m then ''b'' else ''w'')))
       # processSequence rest board"
proof -
  have body: "executeMoveBody board m = Inr board"
    using assms by (simp add: executeMoveBody_def isCastling_def bindE_def Let_def)
  then have ex: "executeMove board m = board"
    by (simp add: executeMove_def)
  show ?thesis using body ex by (simp add: processSequence_Cons)
qed

theorem executeMove_no_candidates_witness:
  "\<not> isCastling (sanOf e4black) \<and>
   parseSan (sanOf e4black) =
     Some \<lparr>pieceType = None, sourceFile = None, sourceRank = None,
           targetFile = CHR ''e'', targetRank = CHR ''4'', promotion = None\<rparr> \<and>
   enumerate_candidates startBoard (isWhite e4black)
     \<lparr>pieceType = None, sourceFile = None, sourceRank = None,
      targetFile = CHR ''e'', targetRank = CHR ''4'', promotion = None\<rparr> = Inr [] \<and>
   executeMove startBoard e4black = startBoard \<and>
   processSequence [e4black] startBoard =
     [MoveObj (3 / 2) ''e4'' ''e4'' False [] None
        (Some (boardToFen startBoard ''w''))]"
proof -
  let ?g = "\<lparr>pieceType = None, sourceFile = None, sourceRank = None,
      targetFile = CHR ''e'', targetRank = CHR ''4'', promotion = None\<rparr>"
  have a: "\<not> isCastling (sanOf e4black)"
    by code_simp
  have b: "parseSan (sanOf e4black) = Some ?g"
    by code_simp
  have c: "enumerate_candidates startBoard (isWhite e4black) ?g = Inr []"
    by code_simp
  show ?thesis
    using a b c executeMove_no_candidates [OF a b c, of "[]"]
    by (simp add: e4black_def)
qed

text \<open>
  Claim C1 as stated fails, in both parts.  From the starting array, for White's
  \<open>Nd5\<close>, the scan finds the knights on b1 and g1 and the geometry filter rejects
  both, so no candidate remains, yet the board that \<open>executeMove\<close> returns differs from
  its argument: d5 holds a knight and b1 is empty.  And in \<open>e4\<close> by White followed by
  \<open>e4\<close> by Black, the scan for the second move finds no candidate and the board is
  returned unchanged, yet the \<open>fenAfter\<close> of the second node is not that of the node
  before it: the two strings differ in the active-colour field.
\<close>

theorem geometry_empty_counterexample:
  "\<not> isCastling (sanOf nd5) \<and>
   parseSan (sanOf nd5) =
     Some \<lparr>pieceType = Some CHR ''N'', sourceFile = None, sourceRank = None,
           targetFile = CHR ''d'', targetRank = CHR ''5'', promotion = None\<rparr> \<and>
   enumerate_candidates startBoard (isWhite nd5)
     \<lparr>pieceType = Some CHR ''N'', sourceFile = None, sourceRank = None,
      targetFile = CHR ''d'', targetRank = CHR ''5'', promotion = None\<rparr>
     = Inr [(7, 1), (7, 6)] \<and>
   filterValid startBoard
     \<lparr>pieceType = Some CHR ''N'', sourceFile = None, sourceRank = None,
      targetFile = CHR ''d'', targetRank = CHR ''5'', promotion = None\<rparr>
     [(7, 1), (7, 6)] = Inr [] \<and>
   executeMove startBoard nd5 \<noteq> startBoard \<and>
   executeMove startBoard nd5 ! 3 ! 3 = Some CHR ''N'' \<and>
   executeMove startBoard nd5 ! 7 ! 1 = None \<and>
   \<not> isCastling (sanOf e4black) \<and>
   parseSan (sanOf e4black) =
     Some \<lparr>pieceType = None, sourceFile = None, sourceRank = None,
           targetFile = CHR ''e'', targetRank = CHR ''4'', promotion = None\<rparr> \<and>
   enumerate_candidates (executeMove startBoard e4white) (isWhite e4black)
     \<lparr>pieceType = None, sourceFile = None, sourceRank = None,
      targetFile = CHR ''e'', targetRank = CHR ''4'', promotion = None\<rparr> = Inr [] \<and>
   executeMove (executeMove startBoard e4white) e4black = executeMove startBoard e4white \<and>
   map fenAfter (processSequence [e4white, e4black] startBoard) =
     [Some ''rnbqkbnr/pppppppp/8/8/4P3/8/PPPP1PPP/RNBQKBNR b KQkq - 0 1'',
      Some ''rnbqkbnr/pppppppp/8/8/4P3/8/PPPP1PPP/RNBQKBNR w KQkq - 0 1'']"
  by code_simp

section \<open>Seeding of variations\<close>

lemma length_processSequence: "length (processSequence seq board) = length seq"
  by (induction seq arbitrary: board) (simp_all add: processSequence_Cons)

lemma boardBefore_Suc:
  "boardBefore (m # rest) board (Suc j) = boardBefore rest (executeMove board m) j"
  by (simp add: boardBefore_def)

text \<open>
  Claim C2.  In a sequence processed from \<open>board\<close> (the main line from the starting
  board, or a variation from the board it was seeded with), for the node at any index
  \<open>i\<close>: each of its variations is processed starting from the board that existed
  immediately before the node's own move, the node's \<open>fenAfter\<close> is the position after
  its move, and the nodes after it in the sequence are processed from that board after
  the move.
\<close>

theorem variations_seeded_before:
  assumes "i < length seq"
  shows "variations (processSequence seq board ! i) =
           map_option (map (\<lambda>v. processSequence v (boardBefore seq board i)))
             (variations (seq ! i)) \<and>
         fenAfter (processSequence seq board ! i) =
           Some (boardToFen (executeMove (boardBefore seq board i) (seq ! i))
                   (if isWhite (seq ! i) then ''b'' else ''w'')) \<and>
         drop (Suc i) (processSequence seq board) =
           processSequence (drop (Suc i) seq) (executeMove (boardBefore seq board i) (seq ! i))"
  using assms
proof (induction seq arbitrary: board i)
  case Nil
  then show ?case by simp
next
  case (Cons m rest)
  show ?case
  proof (cases i)
    case 0
    then show ?thesis by (simp add: processSequence_Cons boardBefore_def)
  next
    case (Suc j)
    with Cons.prems have j: "j < length rest" by simp
    from Cons.IH[OF j, of "executeMove board m"] Suc
    show ?thesis by (simp add: processSequence_Cons boardBefore_Suc)
  qed
qed

theorem variations_seeded_before_witness:
  "1 < length sampleSeq \<and>
   variations (processSequence sampleSeq startBoard ! 1) =
     Some [[MoveObj (3 / 2) ''c5'' ''c5'' False [] None
        (Some ''rnbqkbnr/pp1ppppp/8/2p5/4P3/8/PPPP1PPP/RNBQKBNR w KQkq - 0 1'')]] \<and>
   fenAfter (processSequence sampleSeq startBoard ! 1) =
     Some ''rnbqkbnr/pppp1ppp/8/4p3/4P3/8/PPPP1PPP/RNBQKBNR w KQkq - 0 1''"
proof -
  have h: "1 < length sampleSeq" by code_simp
  have v: "map_option (map (\<lambda>v. processSequence v (boardBefore sampleSeq startBoard 1)))
             (variations (sampleSeq ! 1)) =
           Some [[MoveObj (3 / 2) ''c5'' ''c5'' False [] None
             (Some ''rnbqkbnr/pp1ppppp/8/2p5/4P3/8/PPPP1PPP/RNBQKBNR w KQkq - 0 1'')]]"
    by code_simp
  have f: "boardToFen (executeMove (boardBefore sampleSeq startBoard 1) (sampleSeq ! 1))
             (if isWhite (sampleSeq ! 1) then ''b'' else ''w'') =
           ''rnbqkbnr/pppp1ppp/8/4p3/4P3/8/PPPP1PPP/RNBQKBNR w KQkq - 0 1''"
    by code_simp
  show ?thesis
    using h variations_seeded_before [OF h, of startBoard] v f by simp
qed

section \<open>The token loop: comments and unbalanced parentheses\<close>

lemma tokStep_comment:
  "tokKind c = KComment \<Longrightarrow> tokStep s c = Inr (s\<lparr>curComment := commentText c\<rparr>)"
  by (auto simp: tokKind_def tokStep_def commentText_def Let_def split: if_splits)

lemma tokKind_move:
  "tokKind mv = KMove \<Longrightarrow>
   trim mv \<noteq> [] \<and> \<not> (startsWith (trim mv) ''{'' \<and> endsWith (trim mv) ''}'') \<and>
   trim mv \<noteq> ''('' \<and> trim mv \<noteq> '')'' \<and> numMatch (trim mv) = None \<and> sanRegex (trim mv)"
  unfolding tokKind_def Let_def
  by (cases "numMatch (trim mv)") (auto split: if_splits)

lemma tokStep_move:
  assumes "tokKind mv = KMove" and "sequenceStack s = topSeq # below"
  shows "tokStep s mv = Inr (s\<lparr>sequenceStack := (topSeq @ [newMove s (trim mv)]) # below,
                          expectingBlack := \<not> expectingBlack s,
                          moveNumber := (if expectingBlack s then Suc (moveNumber s)
                                         else moveNumber s),
                          curComment := []\<rparr>)"
proof -
  note k = tokKind_move[OF assms(1)]
  show ?thesis
    unfolding tokStep_def Let_def using k assms(2) by auto
qed

lemma tokStep_other_comment:
  "tokKind t \<noteq> KMove \<Longrightarrow> tokKind t \<noteq> KComment \<Longrightarrow> tokStep s t = Inr s' \<Longrightarrow>
   curComment s' = curComment s"
  unfolding tokKind_def tokStep_def Let_def
  by (cases "numMatch (trim t)") (auto split: if_splits list.splits)

lemma tokStep_stack_nonempty:
  "tokStep s t = Inr s' \<Longrightarrow> sequenceStack s \<noteq> [] \<Longrightarrow> sequenceStack s' \<noteq> []"
  unfolding tokStep_def Let_def
  by (cases "numMatch (trim t)") (auto split: if_splits list.splits)

lemma runTokens_stack_nonempty:
  "runTokens s ts = Inr s' \<Longrightarrow> sequenceStack s \<noteq> [] \<Longrightarrow> sequenceStack s' \<noteq> []"
proof (induction ts arbitrary: s)
  case Nil
  then show ?case by simp
next
  case (Cons t ts)
  then obtain s1 where s1: "tokStep s t = Inr s1" and r: "runTokens s1 ts = Inr s'"
    by (auto simp: bindE_def split: sum.splits)
  from tokStep_stack_nonempty[OF s1 Cons.prems(2)] Cons.IH[OF r] show ?case by simp
qed

lemma runTokens_append:
  "runTokens s (xs @ ys) = bindE (runTokens s xs) (\<lambda>s'. runTokens s' ys)"
  by (induction xs arbitrary: s) (auto simp: bindE_def split: sum.splits)

lemma runTokens_keep_comment:
  "\<forall>t \<in> set ts. tokKind t \<noteq> KMove \<and> tokKind t \<noteq> KComment \<Longrightarrow> runTokens s ts = Inr s' \<Longrightarrow>
   curComment s' = curComment s"
proof (induction ts arbitrary: s)
  case Nil
  then show ?case by simp
next
  case (Cons t ts)
  then obtain s1 where s1: "tokStep s t = Inr s1" and r: "runTokens s1 ts = Inr s'"
    by (auto simp: bindE_def split: sum.splits)
  have "curComment s1 = curComment s"
    using tokStep_other_comment[OF _ _ s1] Cons.prems(1) by simp
  moreover have "curComment s' = curComment s1"
    using Cons.IH[OF _ r] Cons.prems(1) by simp
  ultimately show ?case by simp
qed


lemma pending_comment_attached:
  assumes ne: "sequenceStack s \<noteq> []"
    and c: "tokKind c = KComment"
    and mid: "\<forall>t \<in> set mid. tokKind t \<noteq> KMove \<and> tokKind t \<noteq> KComment"
    and run: "runTokens s (c # mid) = Inr s'"
    and mv: "tokKind mv = KMove"
  shows "\<exists>topSeq below s''. sequenceStack s' = topSeq # below \<and> tokStep s' mv = Inr s'' \<and>
           sequenceStack s'' =
             (topSeq @ [MoveObj (if expectingBlack s' then of_nat (moveNumber s') + 1 / 2
                                 else of_nat (moveNumber s'))
                          (trim mv) (trim mv) (\<not> expectingBlack s') (commentText c) None None])
             # below"
proof -
  let ?s1 = "s\<lparr>curComment := commentText c\<rparr>"
  from run have r: "runTokens ?s1 mid = Inr s'"
    by (simp add: tokStep_comment[OF c] bindE_def)
  have cc: "curComment s' = commentText c"
    using runTokens_keep_comment[OF mid r] by simp
  have "sequenceStack ?s1 \<noteq> []" using ne by simp
  from runTokens_stack_nonempty[OF r this]
  obtain topSeq below where st: "sequenceStack s' = topSeq # below"
    by (cases "sequenceStack s'") auto
  show ?thesis
    using st cc tokStep_move[OF mv st] by (auto simp: newMove_def Let_def)
qed

lemma tokStep_sameTree:
  assumes "sameTree s1 s2" and "tokKind t \<noteq> KMove"
  shows "(\<exists>e. tokStep s1 t = Inl e \<and> tokStep s2 t = Inl e) \<or>
         (\<exists>s1' s2'. tokStep s1 t = Inr s1' \<and> tokStep s2 t = Inr s2' \<and> sameTree s1' s2')"
proof (cases "numMatch (trim t)")
  case None
  with assms show ?thesis
    unfolding tokStep_def tokKind_def Let_def sameTree_def
    by (auto split: if_splits list.splits)
next
  case (Some a)
  with assms show ?thesis
    unfolding tokStep_def tokKind_def Let_def sameTree_def
    by (cases a) (auto split: if_splits list.splits)
qed

lemma runTokens_sameTree:
  "sameTree s1 s2 \<Longrightarrow> \<forall>t \<in> set ts. tokKind t \<noteq> KMove \<Longrightarrow>
   stackOf (runTokens s1 ts) = stackOf (runTokens s2 ts)"
proof (induction ts arbitrary: s1 s2)
  case Nil
  then show ?case by (simp add: stackOf_def sameTree_def)
next
  case (Cons t ts)
  from tokStep_sameTree[OF Cons.prems(1), of t] Cons.prems(2)
  consider (err) e where "tokStep s1 t = Inl e" "tokStep s2 t = Inl e"
    | (ok) s1' s2' where "tokStep s1 t = Inr s1'" "tokStep s2 t = Inr s2'" "sameTree s1' s2'"
    by auto
  then show ?case
  proof cases
    case err
    then show ?thesis by (simp add: bindE_def stackOf_def)
  next
    case ok
    with Cons.IH[of s1' s2'] Cons.prems(2) show ?thesis by (simp add: bindE_def)
  qed
qed


text \<open>
  Claim C10.  Take a run of tokens, none of them a move token, that the loop processes
  without raising, and in it a comment token \<open>c\<close> after which the run has no further
  comment token; any number of comment tokens may precede \<open>c\<close> in the run.  The node
  that the next move token constructs carries the text of \<open>c\<close> alone: the earlier
  comments of the run were overwritten in the pending-comment variable.
\<close>

theorem last_comment_wins:
  assumes "sequenceStack s \<noteq> []"
    and "\<forall>t \<in> set (pre @ post). tokKind t \<noteq> KMove"
    and "tokKind c = KComment"
    and "\<forall>t \<in> set post. tokKind t \<noteq> KComment"
    and "runTokens s (pre @ c # post) = Inr s'"
    and "tokKind mv = KMove"
  shows "\<exists>topSeq below s''. sequenceStack s' = topSeq # below \<and> tokStep s' mv = Inr s'' \<and>
           sequenceStack s'' =
             (topSeq @ [MoveObj (if expectingBlack s' then of_nat (moveNumber s') + 1 / 2
                                 else of_nat (moveNumber s'))
                          (trim mv) (trim mv) (\<not> expectingBlack s') (commentText c) None None])
             # below"
proof -
  from assms(5) obtain s0 where p: "runTokens s pre = Inr s0"
    and r: "runTokens s0 (c # post) = Inr s'"
    by (auto simp: runTokens_append bindE_def split: sum.splits)
  have ne: "sequenceStack s0 \<noteq> []"
    by (rule runTokens_stack_nonempty[OF p assms(1)])
  have mid: "\<forall>t \<in> set post. tokKind t \<noteq> KMove \<and> tokKind t \<noteq> KComment"
    using assms(2,4) by simp
  show ?thesis by (rule pending_comment_attached[OF ne assms(3) mid r assms(6)])
qed

theorem last_comment_wins_witness:
  "\<exists>topSeq below s''.
     sequenceStack \<lparr>sequenceStack = [[]], curComment = ''second'', expectingBlack = False,
                    moveNumber = 1\<rparr> = topSeq # below \<and>
     tokStep \<lparr>sequenceStack = [[]], curComment = ''second'', expectingBlack = False,
              moveNumber = 1\<rparr> ''e4'' = Inr s'' \<and>
     sequenceStack s'' =
       (topSeq @ [MoveObj 1 ''e4'' ''e4'' True ''second'' None None]) # below"
proof -
  let ?s' = "\<lparr>sequenceStack = [[]], curComment = ''second'', expectingBlack = False,
              moveNumber = 1\<rparr>"
  have h1: "sequenceStack builderInit \<noteq> []" by code_simp
  have h2: "\<forall>t \<in> set ([''{first}'', ''1.''] @ []). tokKind t \<noteq> KMove" by code_simp
  have h3: "tokKind ''{second}'' = KComment" by code_simp
  have h4: "\<forall>t \<in> set ([]::string list). tokKind t \<noteq> KComment" by simp
  have h5: "runTokens builderInit ([''{first}'', ''1.''] @ ''{second}'' # []) = Inr ?s'"
    by code_simp
  have h6: "tokKind ''e4'' = KMove" by code_simp
  have t: "trim ''e4'' = ''e4''" by code_simp
  have c: "commentText ''{second}'' = ''second''" by code_simp
  show ?thesis
    using last_comment_wins [OF h1 h2 h3 h4 h5 h6] t c by simp
qed

text \<open>No step of the loop changes the comment of a node that is already in a sequence
  of the stack: a step leaves the comments as they are, opens an empty sequence, removes
  the top sequence, or appends the pending comment with a new node.\<close>

lemma comment_addVariation: "comment (addVariation m finished) = comment m"
  by (cases m) simp

lemma comments_attach: "map comment (attach currentSeq finished) = map comment currentSeq"
proof (cases "currentSeq = []")
  case True
  then show ?thesis by (simp add: attach_def)
next
  case False
  have e: "butlast currentSeq @ [last currentSeq] = currentSeq"
    using False by simp
  have "map comment (butlast currentSeq) @ [comment (last currentSeq)]
      = map comment currentSeq"
    using arg_cong[OF e, of "map comment"] by simp
  then show ?thesis
    using False by (simp add: attach_def comment_addVariation)
qed

lemma tokStep_keeps_comments:
  assumes "tokStep s t = Inr s'"
  shows "map (map comment) (sequenceStack s') = map (map comment) (sequenceStack s) \<or>
         map (map comment) (sequenceStack s') = [] # map (map comment) (sequenceStack s) \<or>
         map (map comment) (sequenceStack s') = tl (map (map comment) (sequenceStack s)) \<or>
         (\<exists>topSeq below. sequenceStack s = topSeq # below \<and>
            map (map comment) (sequenceStack s') =
              (map comment topSeq @ [curComment s]) # map (map comment) below)"
proof (cases "numMatch (trim t)")
  case None
  with assms show ?thesis
    unfolding tokStep_def Let_def
    by (auto simp: comments_attach newMove_def Let_def split: if_splits list.splits)
next
  case (Some a)
  with assms show ?thesis
    unfolding tokStep_def Let_def
    by (cases a) (auto simp: comments_attach split: if_splits list.splits)
qed

text \<open>
  Claim C6, as amended.  A comment token only sets the pending comment, so it changes
  no node constructed before it (nor does a later step, by
  \<open>tokStep_keeps_comments\<close>).  When the tokens up to the next move token contain no
  other comment token and the loop does not raise on them, the node constructed from
  that move token carries the text of the comment.  When no move token follows, the
  comment has no effect on the tree: the stack of sequences at the end, or the fault,
  is what it would be without the comment token.
\<close>

theorem comment_goes_to_next_move:
  assumes "tokKind c = KComment"
  shows "tokStep s c = Inr (s\<lparr>curComment := commentText c\<rparr>) \<and>
    (sequenceStack s \<noteq> [] \<longrightarrow>
     (\<forall>t \<in> set mid. tokKind t \<noteq> KMove \<and> tokKind t \<noteq> KComment) \<longrightarrow>
     runTokens s (c # mid) = Inr s' \<longrightarrow> tokKind mv = KMove \<longrightarrow>
     (\<exists>topSeq below s''. sequenceStack s' = topSeq # below \<and> tokStep s' mv = Inr s'' \<and>
        sequenceStack s'' =
          (topSeq @ [MoveObj (if expectingBlack s' then of_nat (moveNumber s') + 1 / 2
                              else of_nat (moveNumber s'))
                       (trim mv) (trim mv) (\<not> expectingBlack s') (commentText c) None None])
          # below)) \<and>
    ((\<forall>t \<in> set rest. tokKind t \<noteq> KMove) \<longrightarrow>
     stackOf (runTokens s (c # rest)) = stackOf (runTokens s rest))"
proof (intro conjI impI)
  show "tokStep s c = Inr (s\<lparr>curComment := commentText c\<rparr>)"
    by (rule tokStep_comment[OF assms])
next
  assume "sequenceStack s \<noteq> []"
    and "\<forall>t \<in> set mid. tokKind t \<noteq> KMove \<and> tokKind t \<noteq> KComment"
    and "runTokens s (c # mid) = Inr s'" and "tokKind mv = KMove"
  then show "\<exists>topSeq below s''. sequenceStack s' = topSeq # below \<and> tokStep s' mv = Inr s'' \<and>
        sequenceStack s'' =
          (topSeq @ [MoveObj (if expectingBlack s' then of_nat (moveNumber s') + 1 / 2
                              else of_nat (moveNumber s'))
                       (trim mv) (trim mv) (\<not> expectingBlack s') (commentText c) None None])
          # below"
    using pending_comment_attached[OF _ assms] by blast
next
  assume nm: "\<forall>t \<in> set rest. tokKind t \<noteq> KMove"
  have "sameTree (s\<lparr>curComment := commentText c\<rparr>) s" by (simp add: sameTree_def)
  from runTokens_sameTree[OF this nm]
  show "stackOf (runTokens s (c # rest)) = stackOf (runTokens s rest)"
    by (simp add: tokStep_comment[OF assms] bindE_def)
qed

theorem comment_goes_to_next_move_witness:
  "tokStep builderInit ''{Ruy Lopez}'' = Inr (builderInit\<lparr>curComment := ''Ruy Lopez''\<rparr>) \<and>
   (\<exists>topSeq below s''.
      sequenceStack \<lparr>sequenceStack = [[]], curComment = ''Ruy Lopez'', expectingBlack = False,
                     moveNumber = 4\<rparr> = topSeq # below \<and>
      tokStep \<lparr>sequenceStack = [[]], curComment = ''Ruy Lopez'', expectingBlack = False,
               moveNumber = 4\<rparr> ''Ba4'' = Inr s'' \<and>
      sequenceStack s'' =
        (topSeq @ [MoveObj 4 ''Ba4'' ''Ba4'' True ''Ruy Lopez'' None None]) # below) \<and>
   stackOf (runTokens builderInit [''{Ruy Lopez}'', ''4.'', ''1-0'']) =
     stackOf (runTokens builderInit [''4.'', ''1-0''])"
proof -
  let ?s' = "\<lparr>sequenceStack = [[]], curComment = ''Ruy Lopez'', expectingBlack = False,
              moveNumber = 4\<rparr>"
  have h0: "tokKind ''{Ruy Lopez}'' = KComment" by code_simp
  have h1: "sequenceStack builderInit \<noteq> []" by code_simp
  have h2: "\<forall>t \<in> set [''4.'']. tokKind t \<noteq> KMove \<and> tokKind t \<noteq> KComment" by code_simp
  have h3: "runTokens builderInit [''{Ruy Lopez}'', ''4.''] = Inr ?s'" by code_simp
  have h4: "tokKind ''Ba4'' = KMove" by code_simp
  have h5: "\<forall>t \<in> set [''4.'', ''1-0'']. tokKind t \<noteq> KMove" by code_simp
  have t: "trim ''Ba4'' = ''Ba4''" by code_simp
  have c: "commentText ''{Ruy Lopez}'' = ''Ruy Lopez''" by code_simp
  note T = comment_goes_to_next_move [OF h0, of builderInit "[''4.'']" ?s' "''Ba4''"
        "[''4.'', ''1-0'']"]
  from T have "tokStep builderInit ''{Ruy Lopez}''
      = Inr (builderInit\<lparr>curComment := commentText ''{Ruy Lopez}''\<rparr>)"
    by (rule conjunct1)
  then have B: "tokStep builderInit ''{Ruy Lopez}''
      = Inr (builderInit\<lparr>curComment := ''Ruy Lopez''\<rparr>)"
    by (simp only: c)
  from T h1 h2 h3 h4
  have "\<exists>topSeq below s''. sequenceStack ?s' = topSeq # below \<and> tokStep ?s' ''Ba4'' = Inr s'' \<and>
        sequenceStack s'' =
          (topSeq @ [MoveObj (if expectingBlack ?s' then of_nat (moveNumber ?s') + 1 / 2
                              else of_nat (moveNumber ?s'))
                       (trim ''Ba4'') (trim ''Ba4'') (\<not> expectingBlack ?s')
                       (commentText ''{Ruy Lopez}'') None None])
          # below"
    by blast
  then have A: "\<exists>topSeq below s''. sequenceStack ?s' = topSeq # below \<and>
        tokStep ?s' ''Ba4'' = Inr s'' \<and>
        sequenceStack s'' =
          (topSeq @ [MoveObj 4 ''Ba4'' ''Ba4'' True ''Ruy Lopez'' None None]) # below"
    unfolding t c by simp
  from T h5 have C: "stackOf (runTokens builderInit [''{Ruy Lopez}'', ''4.'', ''1-0'']) =
     stackOf (runTokens builderInit [''4.'', ''1-0''])"
    by blast
  show ?thesis using B A C by blast
qed

text \<open>
  Claim C6 as stated fails: in \<open>{a} {b} e4\<close> the comment token \<open>{a}\<close> is followed by
  a move token, and the node constructed from that token carries \<open>b\<close>.
\<close>

theorem comment_overwritten_counterexample:
  "tokKind ''{a}'' = KComment \<and> commentText ''{a}'' = ''a'' \<and> tokKind ''{b}'' = KComment \<and>
   tokKind ''e4'' = KMove \<and>
   stackOf (runTokens builderInit [''{a}'', ''{b}'', ''e4'']) =
     Inr [[MoveObj 1 ''e4'' ''e4'' True ''b'' None None]] \<and>
   map (\<lambda>g. map comment (moves g)) (parsePGN ''1. {a} {b} e4'') = [[''b'']]"
  by code_simp

text \<open>
  Claim C4 fails on the code.  Whenever the token \<open>)\<close> is met with the main line
  alone on the stack, the token loop raises instead of going on: \<open>processChunk\<close> raises
  with it and the chunk contributes no game.  For \<open>1. e4 ) e5\<close>, \<open>parsePGN\<close> returns
  nothing, whereas without the \<open>)\<close> the text gives a game of two moves.
\<close>

theorem close_without_open_raises:
  assumes "chunkTokens raw = pre @ '')'' # rest"
    and "runTokens builderInit pre = Inr s"
    and "sequenceStack s = [mainLine]"
  shows "tokStep s '')'' = Inl TypeError \<and> processChunk raw = Inl TypeError \<and>
         chunkOutput raw = []"
proof -
  have t: "trim '')'' = '')''" by code_simp
  have st: "tokStep s '')'' = Inl TypeError"
    unfolding tokStep_def Let_def t using assms(3) by (simp add: startsWith_def)
  have "runTokens builderInit (chunkTokens raw) = Inl TypeError"
    using assms(1,2) st by (simp add: runTokens_append bindE_def)
  then have pc: "processChunk raw = Inl TypeError"
    by (simp add: processChunk_def bindE_def Let_def)
  then show ?thesis using st by (simp add: chunkOutput_def)
qed

theorem close_without_open_raises_witness:
  "tokStep \<lparr>sequenceStack = [[MoveObj 1 ''e4'' ''e4'' True [] None None]], curComment = [],
            expectingBlack = True, moveNumber = 1\<rparr> '')'' = Inl TypeError \<and>
   processChunk ''1. e4 ) e5'' = Inl TypeError \<and>
   chunkOutput ''1. e4 ) e5'' = [] \<and>
   parsePGN ''1. e4 ) e5'' = [] \<and>
   map (\<lambda>g. map san (moves g)) (parsePGN ''1. e4 e5'') = [[''e4'', ''e5'']]"
proof -
  have h1: "chunkTokens ''1. e4 ) e5'' = [''1.'', ''e4''] @ '')'' # [''e5'']" by code_simp
  have h2: "runTokens builderInit [''1.'', ''e4''] =
      Inr \<lparr>sequenceStack = [[MoveObj 1 ''e4'' ''e4'' True [] None None]], curComment = [],
           expectingBlack = True, moveNumber = 1\<rparr>"
    by code_simp
  have h3: "sequenceStack \<lparr>sequenceStack = [[MoveObj 1 ''e4'' ''e4'' True [] None None]],
      curComment = [], expectingBlack = True, moveNumber = 1\<rparr>
      = [[MoveObj 1 ''e4'' ''e4'' True [] None None]]"
    by simp
  have p: "parsePGN ''1. e4 ) e5'' = []" by code_simp
  have q: "map (\<lambda>g. map san (moves g)) (parsePGN ''1. e4 e5'') = [[''e4'', ''e5'']]"
    by code_simp
  show ?thesis
    using close_without_open_raises [OF h1 h2 h3] p q by blast
qed

section \<open>Header lines, chunks and faults\<close>








lemma gamesLoop_concat:
  "gamesLoop result raws = result @ concat (map chunkOutput raws)"
  by (induction raws arbitrary: result)
     (auto simp: chunkOutput_def split: sum.splits option.splits)

text \<open>
  Claim C5.  \<open>parsePGN\<close> is a total function to lists of games: what a chunk raises is
  caught in the loop over the chunks.  Its result is the concatenation, in order, of
  what each chunk contributes by itself; a chunk whose processing raises contributes
  nothing, and the chunks before and after it contribute what they would without it.
\<close>

theorem parsePGN_skips_faulting_chunk:
  assumes "trim txt \<noteq> []"
    and "rawGames txt = pre @ raw # post"
    and "processChunk raw = Inl err"
  shows "parsePGN txt = concat (map chunkOutput (rawGames txt)) \<and>
         parsePGN txt = concat (map chunkOutput pre) @ concat (map chunkOutput post)"
proof -
  have a: "parsePGN txt = concat (map chunkOutput (rawGames txt))"
    using assms(1) by (simp add: parsePGN_def gamesLoop_concat)
  have "chunkOutput raw = []" using assms(3) by (simp add: chunkOutput_def)
  with a assms(2) show ?thesis by simp
qed

theorem parsePGN_skips_faulting_chunk_witness:
  \<open>processChunk
     ''[Event "b"]\<newline>[SetUp "1"]\<newline>[FEN "8/8/8/8/8/8/8/8/k"]\<newline>\<newline>1. e4'' = Inl TypeError \<and>
   parsePGN threeGames =
     concat (map chunkOutput [''[Event "a"]\<newline>\<newline>1. e4'']) @
     concat (map chunkOutput [''[Event "c"]\<newline>\<newline>1. d4'']) \<and>
   map (\<lambda>g. map san (moves g)) (parsePGN threeGames) = [[''e4''], [''d4'']]\<close>
proof -
  have h1: "trim threeGames \<noteq> []" by code_simp
  have h2: \<open>rawGames threeGames =
      [''[Event "a"]\<newline>\<newline>1. e4''] @
      ''[Event "b"]\<newline>[SetUp "1"]\<newline>[FEN "8/8/8/8/8/8/8/8/k"]\<newline>\<newline>1. e4'' #
      [''[Event "c"]\<newline>\<newline>1. d4'']\<close>
    by code_simp
  have h3: \<open>processChunk
     ''[Event "b"]\<newline>[SetUp "1"]\<newline>[FEN "8/8/8/8/8/8/8/8/k"]\<newline>\<newline>1. e4'' = Inl TypeError\<close>
    by code_simp
  have e: "map (\<lambda>g. map san (moves g)) (parsePGN threeGames) = [[''e4''], [''d4'']]"
    by code_simp
  show ?thesis
    using parsePGN_skips_faulting_chunk [OF h1 h2 h3] h3 e by blast
qed







section \<open>executeMove never writes to its argument\<close>

lemma copyRows_eq:
  "\<forall>r \<in> set rs. r < length h \<Longrightarrow>
   copyRows h rs = ([length h ..< length h + length rs], h @ map (\<lambda>r. Row (rowOf h r)) rs)"
proof (induction rs arbitrary: h)
  case Nil
  then show ?case by simp
next
  case (Cons r rs)
  let ?h1 = "h @ [Row (rowOf h r)]"
  have lt: "\<forall>r' \<in> set rs. r' < length ?h1" using Cons.prems by auto
  have same: "map (\<lambda>r'. Row (rowOf ?h1 r')) rs = map (\<lambda>r'. Row (rowOf h r')) rs"
    using Cons.prems by (auto simp: rowOf_def nth_append)
  have "copyRows ?h1 rs = ([length ?h1 ..< length ?h1 + length rs],
          ?h1 @ map (\<lambda>r'. Row (rowOf ?h1 r')) rs)"
    by (rule Cons.IH[OF lt])
  then show ?case
    by (simp add: alloc_def same upt_conv_Cons del: upt_Suc)
qed

lemma boardRef_rows:
  "boardRef h a \<Longrightarrow> \<forall>r \<in> set (rowRefs h a). r < length h \<and> isRow h r"
  by (auto simp: boardRef_def rowRefs_def isRow_def list_all_iff split: obj.splits)

lemma copyBoard_eq:
  assumes "boardRef h a"
  shows "copyBoard h a =
     (length h + length (rowRefs h a),
      h @ map (\<lambda>r. Row (rowOf h r)) (rowRefs h a)
        @ [Outer [length h ..< length h + length (rowRefs h a)]])"
proof -
  have "\<forall>r \<in> set (rowRefs h a). r < length h" using boardRef_rows[OF assms] by simp
  from copyRows_eq[OF this] show ?thesis by (simp add: copyBoard_def alloc_def)
qed

lemma copyBoard_fresh:
  assumes "boardRef h a" and "copyBoard h a = (b, h1)"
  shows "freshIn h h1 b \<and> boardOf h1 b = boardOf h a"
proof -
  let ?rs = "rowRefs h a"
  let ?n = "length ?rs"
  let ?new = "map (\<lambda>r. Row (rowOf h r)) ?rs"
  from copyBoard_eq[OF assms(1)] assms(2)
  have b: "b = length h + ?n" and h1: "h1 = h @ ?new @ [Outer [length h ..< length h + ?n]]"
    by simp_all
  have hb: "h1 ! b = Outer [length h ..< length h + ?n]"
    by (simp add: b h1 nth_append)
  have row: "\<And>i. i < ?n \<Longrightarrow> h1 ! (length h + i) = Row (rowOf h (?rs ! i))"
    by (simp add: h1 nth_append)
  have rows: "\<forall>r \<in> set [length h ..< length h + ?n]. length h \<le> r \<and> isRow h1 r"
  proof
    fix r assume "r \<in> set [length h ..< length h + ?n]"
    then obtain i where i: "i < ?n" and r: "r = length h + i"
      by (auto simp: le_iff_add)
    have "r < length h1" using i r by (simp add: h1)
    with row[OF i] r show "length h \<le> r \<and> isRow h1 r" by (simp add: isRow_def)
  qed
  have fresh: "freshIn h h1 b"
    using hb rows by (simp add: freshIn_def b h1 list_all_iff)
  have "boardOf h1 b = map (rowOf h1) [length h ..< length h + ?n]"
    by (simp add: boardOf_def rowRefs_def hb)
  also have "\<dots> = map (rowOf h) ?rs"
  proof (rule nth_equalityI)
    show "length (map (rowOf h1) [length h ..< length h + ?n]) = length (map (rowOf h) ?rs)"
      by simp
  next
    fix i assume "i < length (map (rowOf h1) [length h ..< length h + ?n])"
    then have i: "i < ?n" by simp
    then show "map (rowOf h1) [length h ..< length h + ?n] ! i = map (rowOf h) ?rs ! i"
      using row[OF i] by (simp add: rowOf_def)
  qed
  finally show ?thesis using fresh by (simp add: boardOf_def)
qed

lemma freshIn_boardRef: "freshIn h0 h b \<Longrightarrow> boardRef h b"
  by (auto simp: freshIn_def boardRef_def list_all_iff split: obj.splits)

lemma freshIn_trans:
  assumes "take (length h0) h1 = h0" and "freshIn h1 h2 b"
  shows "freshIn h0 h2 b"
proof -
  have "length (take (length h0) h1) = length h0" using assms(1) by simp
  then have le: "length h0 \<le> length h1" by simp
  have "take (length h0) h2 = take (length h0) (take (length h1) h2)"
    using le by (simp add: min_def)
  also have "\<dots> = h0" using assms by (simp add: freshIn_def)
  finally show ?thesis
    using assms(2) le by (auto simp: freshIn_def list_all_iff split: obj.splits)
qed

lemma old_board_unchanged:
  assumes "take (length h) h' = h" and "boardRef h a"
  shows "boardOf h' a = boardOf h a"
proof -
  have nth: "\<And>i. i < length h \<Longrightarrow> h' ! i = h ! i"
    using assms(1) by (metis nth_take)
  have a: "h' ! a = h ! a" using assms(2) nth by (simp add: boardRef_def)
  have "\<forall>r \<in> set (rowRefs h a). h' ! r = h ! r"
    using boardRef_rows[OF assms(2)] nth by simp
  then show ?thesis using a by (simp add: boardOf_def rowRefs_def rowOf_def)
qed


lemma writeCell_fresh:
  assumes "freshIn h0 h b"
  shows "(writeCell h b r c v = Inl TypeError \<and> set_cell (boardOf h b) r c v = Inl TypeError) \<or>
         (\<exists>h'. writeCell h b r c v = Inr h' \<and>
               set_cell (boardOf h b) r c v = Inr (boardOf h' b) \<and> freshIn h0 h' b)"
proof -
  from assms obtain rs where hb: "h ! b = Outer rs" and d: "distinct rs"
    and rows: "\<forall>x \<in> set rs. length h0 \<le> x \<and> isRow h x"
    and tk: "take (length h0) h = h0" and b0: "length h0 \<le> b" and bl: "b < length h"
    by (auto simp: freshIn_def list_all_iff split: obj.splits)
  have refs: "rowRefs h b = rs" by (simp add: rowRefs_def hb)
  have len: "length (boardOf h b) = length rs" by (simp add: boardOf_def refs)
  show ?thesis
  proof (cases "r < length rs")
    case False
    then show ?thesis by (simp add: writeCell_def set_cell_def refs len)
  next
    case True
    let ?ra = "rs ! r"
    let ?new = "Row (js_set (rowOf h ?ra) c v)"
    let ?h' = "h[?ra := ?new]"
    have ra: "?ra \<in> set rs" using True by simp
    with rows have ra0: "length h0 \<le> ?ra" and raRow: "isRow h ?ra" by auto
    have neq: "?ra \<noteq> b" using raRow hb by (auto simp: isRow_def)
    have w: "writeCell h b r c v = Inr ?h'" using True by (simp add: writeCell_def refs)
    have hb': "?h' ! b = Outer rs" using neq hb by simp
    have tk': "take (length h0) ?h' = h0" using ra0 tk by simp
    have rows': "\<forall>x \<in> set rs. length h0 \<le> x \<and> isRow ?h' x"
    proof
      fix x assume x: "x \<in> set rs"
      with rows have "length h0 \<le> x" and "isRow h x" by auto
      then show "length h0 \<le> x \<and> isRow ?h' x"
        by (cases "x = ?ra") (auto simp: isRow_def)
    qed
    have fresh: "freshIn h0 ?h' b"
      using hb' tk' rows' d b0 bl by (simp add: freshIn_def list_all_iff)
    have rowOf': "\<And>x. x \<in> set rs \<Longrightarrow>
        rowOf ?h' x = (if x = ?ra then js_set (rowOf h ?ra) c v else rowOf h x)"
      using rows by (auto simp: rowOf_def isRow_def)
    have "boardOf ?h' b = (boardOf h b)[r := js_set (boardOf h b ! r) c v]"
    proof (rule nth_equalityI)
      show "length (boardOf ?h' b) = length ((boardOf h b)[r := js_set (boardOf h b ! r) c v])"
        by (simp add: boardOf_def rowRefs_def hb hb')
    next
      fix i assume "i < length (boardOf ?h' b)"
      then have i: "i < length rs" by (simp add: boardOf_def rowRefs_def hb')
      have eq: "(rs ! i = ?ra) = (i = r)"
        using d i True by (simp add: nth_eq_iff_index_eq)
      have "boardOf ?h' b ! i = rowOf ?h' (rs ! i)"
        using i by (simp add: boardOf_def rowRefs_def hb')
      also have "\<dots> = (if i = r then js_set (rowOf h ?ra) c v else rowOf h (rs ! i))"
        using rowOf'[of "rs ! i"] i eq by simp
      also have "\<dots> = (boardOf h b)[r := js_set (boardOf h b ! r) c v] ! i"
        using i True by (simp add: boardOf_def refs nth_list_update)
      finally show "boardOf ?h' b ! i = (boardOf h b)[r := js_set (boardOf h b ! r) c v] ! i" .
    qed
    then have "set_cell (boardOf h b) r c v = Inr (boardOf ?h' b)"
      using True by (simp add: set_cell_def len)
    with w fresh show ?thesis by blast
  qed
qed

lemma writeCells_fresh:
  "freshIn h0 h b \<Longrightarrow> writeCells h b ws = (res, h') \<Longrightarrow>
   freshIn h0 h' b \<and>
   (case res of
      Inl e \<Rightarrow> set_cells (boardOf h b) ws = Inl e
    | Inr u \<Rightarrow> set_cells (boardOf h b) ws = Inr (boardOf h' b))"
proof (induction ws arbitrary: h)
  case Nil
  then show ?case by auto
next
  case (Cons x ws)
  obtain r c v where x: "x = (r, c, v)" by (cases x)
  from writeCell_fresh[OF Cons.prems(1), of r c v]
  show ?case
  proof
    assume "writeCell h b r c v = Inl TypeError \<and> set_cell (boardOf h b) r c v = Inl TypeError"
    with Cons.prems x show ?thesis by (auto simp: bindE_def)
  next
    assume "\<exists>h1. writeCell h b r c v = Inr h1 \<and>
               set_cell (boardOf h b) r c v = Inr (boardOf h1 b) \<and> freshIn h0 h1 b"
    then obtain h1 where w: "writeCell h b r c v = Inr h1"
      and sc: "set_cell (boardOf h b) r c v = Inr (boardOf h1 b)"
      and f: "freshIn h0 h1 b"
      by blast
    from Cons.prems(2) x w have "writeCells h1 b ws = (res, h')" by simp
    from Cons.IH[OF f this] sc x show ?thesis
      by (cases res) (simp_all add: bindE_def)
  qed
qed

lemma castling_set_cells:
  "executeCastlingForColor B w k = set_cells B (castlingWrites w k)"
  by (simp add: executeCastlingForColor_def castlingWrites_def Let_def bindE_def
      split: sum.splits)

lemma relocate_set_cells:
  "relocate B w sq tRow tCol promo =
     bindE (cell_at B (int (fst sq)) (int (snd sq)))
       (\<lambda>x. set_cells B (relocateWrites w sq tRow tCol promo x))"
  by (cases sq)
     (auto simp: relocate_def relocateWrites_def bindE_def split: sum.splits option.splits)


lemma freshIn_take: "freshIn h0 h b \<Longrightarrow> take (length h0) h = h0"
  by (simp add: freshIn_def)

lemma castlingH_fresh:
  assumes "boardRef h1 b" and "executeCastlingForColorH h1 b w k = (res, h2)"
  shows "take (length h1) h2 = h1 \<and>
         (case res of
            Inl e \<Rightarrow> executeCastlingForColor (boardOf h1 b) w k = Inl e
          | Inr a \<Rightarrow> freshIn h1 h2 a \<and>
                     executeCastlingForColor (boardOf h1 b) w k = Inr (boardOf h2 a))"
proof -
  obtain b2 hc where cp: "copyBoard h1 b = (b2, hc)" by (cases "copyBoard h1 b")
  from copyBoard_fresh[OF assms(1) cp]
  have f: "freshIn h1 hc b2" and same: "boardOf hc b2 = boardOf h1 b" by simp_all
  obtain r hw where ws: "writeCells hc b2 (castlingWrites w k) = (r, hw)"
    by (cases "writeCells hc b2 (castlingWrites w k)")
  from writeCells_fresh[OF f ws]
  have fw: "freshIn h1 hw b2"
    and val: "(case r of
        Inl e \<Rightarrow> set_cells (boardOf hc b2) (castlingWrites w k) = Inl e
      | Inr u \<Rightarrow> set_cells (boardOf hc b2) (castlingWrites w k) = Inr (boardOf hw b2))"
    by simp_all
  show ?thesis
  proof (cases r)
    case (Inl e)
    with assms(2) cp ws have "res = Inl e" and "h2 = hw"
      by (simp_all add: executeCastlingForColorH_def)
    with Inl val fw same show ?thesis
      by (simp add: castling_set_cells freshIn_take)
  next
    case (Inr u)
    with assms(2) cp ws have "res = Inr b2" and "h2 = hw"
      by (simp_all add: executeCastlingForColorH_def)
    with Inr val fw same show ?thesis
      by (simp add: castling_set_cells freshIn_take)
  qed
qed

lemma castlingH_in_try:
  assumes "freshIn h0 h1 b" and "executeCastlingForColorH h1 b w k = (res, h2)"
  shows "take (length h0) h2 = h0 \<and>
         (case res of
            Inl e \<Rightarrow> executeCastlingForColor (boardOf h1 b) w k = Inl e
          | Inr a \<Rightarrow> freshIn h0 h2 a \<and>
                     executeCastlingForColor (boardOf h1 b) w k = Inr (boardOf h2 a))"
proof -
  note c = castlingH_fresh[OF freshIn_boardRef[OF assms(1)] assms(2)]
  have t0: "take (length h0) h1 = h0" by (rule freshIn_take[OF assms(1)])
  have "length (take (length h0) h1) = length h0" using t0 by simp
  then have le: "length h0 \<le> length h1" by simp
  have "take (length h0) h2 = take (length h0) (take (length h1) h2)"
    using le by (simp add: min_def)
  then have t2: "take (length h0) h2 = h0" using c t0 by simp
  show ?thesis
  proof (cases res)
    case (Inl e)
    with c t2 show ?thesis by simp
  next
    case (Inr a)
    with c have "freshIn h1 h2 a" by simp
    from freshIn_trans[OF t0 this] Inr c t2 show ?thesis by simp
  qed
qed

lemma tryBlockH_fresh:
  assumes f: "freshIn h0 h1 b" and t: "tryBlockH h1 b m = (res, h2)"
  shows "take (length h0) h2 = h0 \<and>
         (case res of
            Inl e \<Rightarrow> executeMoveBody (boardOf h1 b) m = Inl e
          | Inr a \<Rightarrow> freshIn h0 h2 a \<and> executeMoveBody (boardOf h1 b) m = Inr (boardOf h2 a))"
proof -
  let ?B = "boardOf h1 b"
  let ?s = "sanOf m"
  let ?w = "isWhite m"
  note tk = freshIn_take[OF f]
  consider (empty) "?s = []"
    | (king) "?s \<noteq> []" "?s = ''O-O'' \<or> ?s = ''0-0''"
    | (queen) "?s \<noteq> []" "\<not> (?s = ''O-O'' \<or> ?s = ''0-0'')" "?s = ''O-O-O'' \<or> ?s = ''0-0-0''"
    | (other) "?s \<noteq> []" "\<not> (?s = ''O-O'' \<or> ?s = ''0-0'')"
        "\<not> (?s = ''O-O-O'' \<or> ?s = ''0-0-0'')"
    by blast
  then show ?thesis
  proof cases
    case empty
    with t have "res = Inr b" "h2 = h1" by (simp_all add: tryBlockH_def)
    with empty f tk show ?thesis by (simp add: executeMoveBody_def)
  next
    case king
    with t have c: "executeCastlingForColorH h1 b ?w True = (res, h2)"
      by (simp add: tryBlockH_def Let_def)
    have eq: "executeMoveBody ?B m = executeCastlingForColor ?B ?w True"
      using king by (simp add: executeMoveBody_def Let_def)
    from castlingH_in_try[OF f c] show ?thesis unfolding eq .
  next
    case queen
    with t have c: "executeCastlingForColorH h1 b ?w False = (res, h2)"
      by (simp add: tryBlockH_def Let_def)
    have eq: "executeMoveBody ?B m = executeCastlingForColor ?B ?w False"
      using queen by (simp add: executeMoveBody_def Let_def)
    from castlingH_in_try[OF f c] show ?thesis unfolding eq .
  next
    case other
    show ?thesis
    proof (cases "parseSan ?s")
      case None
      with other t have "res = Inr b" "h2 = h1" by (simp_all add: tryBlockH_def Let_def)
      with None other f tk show ?thesis by (simp add: executeMoveBody_def Let_def)
    next
      case (Some g)
      show ?thesis
      proof (cases "enumerate_candidates ?B ?w g")
        case (Inl e)
        with Some other t have "res = Inl e" "h2 = h1" by (simp_all add: tryBlockH_def Let_def)
        with Inl Some other tk show ?thesis by (simp add: executeMoveBody_def Let_def bindE_def)
      next
        case (Inr ps)
        note en = Inr
        show ?thesis
        proof (cases "ps = []")
          case True
          with en Some other t have "res = Inr b" "h2 = h1"
            by (simp_all add: tryBlockH_def Let_def)
          with True en Some other f tk show ?thesis
            by (simp add: executeMoveBody_def Let_def bindE_def)
        next
          case False
          note ne = False
          show ?thesis
          proof (cases "filterValid ?B g ps")
            case (Inl e)
            with ne en Some other t have "res = Inl e" "h2 = h1"
              by (simp_all add: tryBlockH_def Let_def)
            with Inl ne en Some other tk show ?thesis
              by (simp add: executeMoveBody_def Let_def bindE_def)
          next
            case (Inr valid)
            let ?sq = "if valid \<noteq> [] then hd valid else hd ps"
            have body: "executeMoveBody ?B m =
                relocate ?B ?w ?sq (tRow_of g) (tCol_of g) (promotion g)"
              using Inr ne en Some other by (simp add: executeMoveBody_def Let_def bindE_def)
            show ?thesis
            proof (cases "cell_at ?B (int (fst ?sq)) (int (snd ?sq))")
              case (Inl e)
              with Inr ne en Some other t have "res = Inl e" "h2 = h1"
                by (simp_all add: tryBlockH_def Let_def)
              with Inl body tk show ?thesis
                by (simp add: relocate_set_cells bindE_def)
            next
              case (Inr x)
              let ?ws = "relocateWrites ?w ?sq (tRow_of g) (tCol_of g) (promotion g) x"
              obtain r hw where ws: "writeCells h1 b ?ws = (r, hw)"
                by (cases "writeCells h1 b ?ws")
              from writeCells_fresh[OF f ws]
              have fw: "freshIn h0 hw b"
                and val: "(case r of
                    Inl e \<Rightarrow> set_cells ?B ?ws = Inl e
                  | Inr u \<Rightarrow> set_cells ?B ?ws = Inr (boardOf hw b))"
                by simp_all
              have rel: "executeMoveBody ?B m = set_cells ?B ?ws"
                using body Inr by (simp add: relocate_set_cells bindE_def)
              have t': "tryBlockH h1 b m =
                  (case writeCells h1 b ?ws of
                     (Inl e, h2) \<Rightarrow> (Inl e, h2)
                   | (Inr u, h2) \<Rightarrow> (Inr b, h2))"
                using Inr \<open>filterValid ?B g ps = Inr valid\<close> ne en Some other
                by (simp add: tryBlockH_def Let_def)
              show ?thesis
              proof (cases r)
                case (Inl e)
                with t t' ws have "res = Inl e" "h2 = hw" by simp_all
                with Inl val fw rel show ?thesis by (simp add: freshIn_take)
              next
                case (Inr u)
                with t t' ws have "res = Inr b" "h2 = hw" by simp_all
                with Inr val fw rel show ?thesis by (simp add: freshIn_take)
              qed
            qed
          qed
        qed
      qed
    qed
  qed
qed

text \<open>
  Claim C9, as amended.  For every store, every board reference in it and every move,
  \<open>executeMove\<close> leaves every array that existed before the call as it was, so the
  argument denotes the same board afterwards; the board it returns is the one the value
  model computes; when the \<open>try\<close> block completes, castling path included, the
  returned reference is a new outer array of new, distinct row arrays; when the
  \<open>try\<close> block raises, the \<open>catch\<close> clause returns the argument itself.  The
  \<open>fenAfter\<close> of a node is a string made from the returned board at once, and no later
  call writes to that board.
\<close>

theorem executeMove_store:
  assumes "boardRef h board" and "executeMoveH h board m = (a, h')"
  shows "take (length h) h' = h \<and> boardOf h' board = boardOf h board \<and>
         boardOf h' a = executeMove (boardOf h board) m \<and>
         (case executeMoveBody (boardOf h board) m of
            Inl e \<Rightarrow> a = board
          | Inr B \<Rightarrow> freshIn h h' a)"
proof -
  obtain b h1 where cp: "copyBoard h board = (b, h1)" by (cases "copyBoard h board")
  from copyBoard_fresh[OF assms(1) cp]
  have f: "freshIn h h1 b" and same: "boardOf h1 b = boardOf h board" by simp_all
  obtain res h2 where t: "tryBlockH h1 b m = (res, h2)" by (cases "tryBlockH h1 b m")
  from tryBlockH_fresh[OF f t]
  have tk: "take (length h) h2 = h"
    and val: "(case res of
        Inl e \<Rightarrow> executeMoveBody (boardOf h1 b) m = Inl e
      | Inr a \<Rightarrow> freshIn h h2 a \<and> executeMoveBody (boardOf h1 b) m = Inr (boardOf h2 a))"
    by simp_all
  have old: "boardOf h2 board = boardOf h board"
    by (rule old_board_unchanged[OF tk assms(1)])
  show ?thesis
  proof (cases res)
    case (Inl e)
    with assms(2) cp t have "a = board" "h' = h2" by (simp_all add: executeMoveH_def)
    with Inl val same tk old show ?thesis by (simp add: executeMove_def)
  next
    case (Inr a2)
    with assms(2) cp t have "a = a2" "h' = h2" by (simp_all add: executeMoveH_def)
    with Inr val same tk old show ?thesis by (simp add: executeMove_def)
  qed
qed


theorem executeMove_store_witness:
  "boardRef startHeap 8 \<and>
   fst (executeMoveH startHeap 8 e4white) = 17 \<and>
   take (length startHeap) (snd (executeMoveH startHeap 8 e4white)) = startHeap \<and>
   boardOf (snd (executeMoveH startHeap 8 e4white)) 8 = boardOf startHeap 8 \<and>
   boardOf (snd (executeMoveH startHeap 8 e4white)) (fst (executeMoveH startHeap 8 e4white)) =
     executeMove (boardOf startHeap 8) e4white \<and>
   freshIn startHeap (snd (executeMoveH startHeap 8 e4white))
     (fst (executeMoveH startHeap 8 e4white))"
proof -
  let ?a = "fst (executeMoveH startHeap 8 e4white)"
  let ?h' = "snd (executeMoveH startHeap 8 e4white)"
  have h1: "boardRef startHeap 8" by code_simp
  have h2: "executeMoveH startHeap 8 e4white = (?a, ?h')" by simp
  have a: "?a = 17" by code_simp
  have ok: "case executeMoveBody (boardOf startHeap 8) e4white of
              Inl e \<Rightarrow> False | Inr B \<Rightarrow> True"
    by code_simp
  note T = executeMove_store [OF h1 h2]
  from T ok have "freshIn startHeap ?h' ?a"
    by (cases "executeMoveBody (boardOf startHeap 8) e4white") simp_all
  with T h1 a show ?thesis by blast
qed

text \<open>
  Claim C9 as stated fails in its middle part: for White's \<open>Bc1\<close> on the starting
  array the diagonal loop divides zero by zero and raises, and \<open>executeMove\<close> returns
  its argument, not a copy.
\<close>

theorem catch_returns_argument_counterexample:
  "boardRef startHeap 8 \<and> boardOf startHeap 8 = startBoard \<and>
   executeMoveBody startBoard bc1white = Inl TypeError \<and>
   fst (executeMoveH startHeap 8 bc1white) = 8"
  by code_simp

end
